theory Spec2Isabelle
  imports Main "HOL-Library.Sublist" "HOL-Library.AList"
begin

section \<open>Text and the regular expressions of the toolkit\<close>

text \<open>
  A JavaScript string is a sequence of code units; the model takes \<^typ>\<open>string\<close>, the
  code units below 256. Every regular expression of the sources is a sequence of
  literal pieces and of one-character classes under a quantifier; none has an
  alternative, a back reference or an assertion other than a leading \<open>^\<close>.
  The \<open>m\<close> flag of the sources only changes \<open>^\<close> and \<open>$\<close>, which the flagged
  expressions do not use.
\<close>

datatype cclass =
    Space           \<comment> \<open>\<open>\s\<close>\<close>
  | AnyChar         \<comment> \<open>\<open>[\s\S]\<close>\<close>
  | NoneOf string   \<comment> \<open>\<open>[^...]\<close>\<close>
  | OneOf string    \<comment> \<open>\<open>[...]\<close>\<close>
  | WordChar        \<comment> \<open>\<open>\w\<close>\<close>
  | VersionChar     \<comment> \<open>\<open>[\d\.\-a-zA-Z]\<close>\<close>

definition is_space :: "char \<Rightarrow> bool" where
  "is_space c = (c \<in> set [CHR 0x09, CHR 0x0A, CHR 0x0B, CHR 0x0C, CHR 0x0D, CHR 0x20, CHR 0xA0])"

definition is_digit :: "char \<Rightarrow> bool" where
  "is_digit c = (c \<in> set ''0123456789'')"

definition is_alpha :: "char \<Rightarrow> bool" where
  "is_alpha c = (c \<in> set ''abcdefghijklmnopqrstuvwxyzABCDEFGHIJKLMNOPQRSTUVWXYZ'')"

fun cmatch :: "cclass \<Rightarrow> char \<Rightarrow> bool" where
  "cmatch Space c = is_space c"
| "cmatch AnyChar c = True"
| "cmatch (NoneOf cs) c = (c \<notin> set cs)"
| "cmatch (OneOf cs) c = (c \<in> set cs)"
| "cmatch WordChar c = (is_alpha c \<or> is_digit c \<or> c = CHR ''_'')"
| "cmatch VersionChar c = (is_digit c \<or> c = CHR ''.'' \<or> c = CHR ''-'' \<or> is_alpha c)"

datatype item =
    Lit string      \<comment> \<open>a literal piece\<close>
  | One cclass      \<comment> \<open>one character of the class\<close>
  | Star cclass     \<comment> \<open>\<open>c*\<close>, greedy\<close>
  | Plus cclass     \<comment> \<open>\<open>c+\<close>, greedy\<close>
  | Lazy cclass     \<comment> \<open>\<open>c*?\<close>, non-greedy\<close>

text \<open>
  The backtracking matcher. \<open>greedy\<close> first tries one more character and falls back to
  the continuation; \<open>lazy\<close> first tries the continuation and falls back to one more
  character. The result lists, piece by piece, the text each item consumed.
\<close>

fun greedy :: "cclass \<Rightarrow> (string \<Rightarrow> 'a option) \<Rightarrow> string \<Rightarrow> (string \<times> 'a) option" where
  "greedy c k [] = map_option (Pair []) (k [])"
| "greedy c k (x # xs) =
     (if cmatch c x then
        (case greedy c k xs of
           Some (w, a) \<Rightarrow> Some (x # w, a)
         | None \<Rightarrow> map_option (Pair []) (k (x # xs)))
      else map_option (Pair []) (k (x # xs)))"

fun lazy :: "cclass \<Rightarrow> (string \<Rightarrow> 'a option) \<Rightarrow> string \<Rightarrow> (string \<times> 'a) option" where
  "lazy c k [] = map_option (Pair []) (k [])"
| "lazy c k (x # xs) =
     (case k (x # xs) of
        Some a \<Rightarrow> Some ([], a)
      | None \<Rightarrow>
          if cmatch c x then map_option (\<lambda>(w, a). (x # w, a)) (lazy c k xs) else None)"

primrec rx_run :: "item list \<Rightarrow> (string \<Rightarrow> 'a option) \<Rightarrow> string \<Rightarrow> (string list \<times> 'a) option" where
  "rx_run [] k s = map_option (Pair []) (k s)"
| "rx_run (i # r) k s =
     (case i of
        Lit t \<Rightarrow>
          if prefix t s
          then map_option (\<lambda>(ws, a). (t # ws, a)) (rx_run r k (drop (length t) s))
          else None
      | One c \<Rightarrow>
          (case s of
             [] \<Rightarrow> None
           | x # xs \<Rightarrow>
               if cmatch c x then map_option (\<lambda>(ws, a). ([x] # ws, a)) (rx_run r k xs)
               else None)
      | Star c \<Rightarrow> map_option (\<lambda>(w, ws, a). (w # ws, a)) (greedy c (rx_run r k) s)
      | Plus c \<Rightarrow>
          (case s of
             [] \<Rightarrow> None
           | x # xs \<Rightarrow>
               if cmatch c x
               then map_option (\<lambda>(w, ws, a). ((x # w) # ws, a)) (greedy c (rx_run r k) xs)
               else None)
      | Lazy c \<Rightarrow> map_option (\<lambda>(w, ws, a). (w # ws, a)) (lazy c (rx_run r k) s))"

text \<open>A match anchored at the start of the text: the pieces and the text left over.\<close>

definition rx_match_here :: "item list \<Rightarrow> string \<Rightarrow> (string list \<times> string) option" where
  "rx_match_here r s = rx_run r Some s"

text \<open>
  \<open>String.prototype.match\<close>, \<open>RegExp.prototype.test\<close> and \<open>replace\<close> without the
  \<open>g\<close> flag: the first start index, from the left, at which the matcher succeeds.
  The result is the text before the match, the pieces, and the text after it.
\<close>

fun rx_search :: "item list \<Rightarrow> string \<Rightarrow> (string \<times> string list \<times> string) option" where
  "rx_search r [] = map_option (\<lambda>(ws, rest). ([], ws, rest)) (rx_match_here r [])"
| "rx_search r (x # xs) =
     (case rx_match_here r (x # xs) of
        Some (ws, rest) \<Rightarrow> Some ([], ws, rest)
      | None \<Rightarrow> map_option (\<lambda>(p, ws, rest). (x # p, ws, rest)) (rx_search r xs))"

definition rx_test :: "item list \<Rightarrow> string \<Rightarrow> bool" where
  "rx_test r s = (rx_search r s \<noteq> None)"

text \<open>The text of a capture group that spans the items \<open>i..<j\<close>.\<close>

definition group_text :: "nat \<times> nat \<Rightarrow> string list \<Rightarrow> string" where
  "group_text g ws = concat (take (snd g - fst g) (drop (fst g) ws))"

subsection \<open>Replacement templates\<close>

text \<open>
  \<open>GetSubstitution\<close> of ECMAScript, for a match without named groups: \<open>$$\<close>, \<open>$&\<close>,
  \<open>$`\<close>, \<open>$'\<close>, \<open>$n\<close> and \<open>$nn\<close>; a two-digit index beyond the number of groups is
  read as a one-digit index followed by a digit; every other \<open>$\<close> stands for itself.
\<close>

definition digit_val :: "char \<Rightarrow> nat" where
  "digit_val c = of_char c - 48"

fun get_substitution :: "string \<Rightarrow> string \<Rightarrow> string \<Rightarrow> string list \<Rightarrow> string \<Rightarrow> string" where
  "get_substitution matched pre post caps [] = []"
| "get_substitution matched pre post caps [c] = [c]"
| "get_substitution matched pre post caps (c # d # t) =
     (if c \<noteq> CHR ''$'' then c # get_substitution matched pre post caps (d # t)
      else if d = CHR ''$'' then CHR ''$'' # get_substitution matched pre post caps t
      else if d = CHR ''&'' then matched @ get_substitution matched pre post caps t
      else if d = CHR 0x60 then pre @ get_substitution matched pre post caps t
      else if d = CHR 0x27 then post @ get_substitution matched pre post caps t
      else if is_digit d then
        (let one =
           (if 1 \<le> digit_val d \<and> digit_val d \<le> length caps
            then caps ! (digit_val d - 1) @ get_substitution matched pre post caps t
            else CHR ''$'' # d # get_substitution matched pre post caps t)
         in case t of
              [] \<Rightarrow> one
            | e # t' \<Rightarrow>
                if is_digit e then
                  (let index = 10 * digit_val d + digit_val e in
                   if index > length caps then one
                   else if 1 \<le> index
                   then caps ! (index - 1) @ get_substitution matched pre post caps t'
                   else CHR ''$'' # d # e # get_substitution matched pre post caps t')
                else one)
      else CHR ''$'' # get_substitution matched pre post caps (d # t))"

text \<open>\<open>text.replace(regexp, template)\<close> without the \<open>g\<close> flag.\<close>

definition rx_replace :: "item list \<Rightarrow> (nat \<times> nat) list \<Rightarrow> string \<Rightarrow> string \<Rightarrow> string" where
  "rx_replace r groups template s =
     (case rx_search r s of
        None \<Rightarrow> s
      | Some (pre, ws, post) \<Rightarrow>
          pre
          @ get_substitution (concat ws) pre post (map (\<lambda>g. group_text g ws) groups) template
          @ post)"

text \<open>\<open>text.replace(searchString, template)\<close>: the first occurrence of a string.\<close>

fun find_sub :: "string \<Rightarrow> string \<Rightarrow> (string \<times> string) option" where
  "find_sub pat [] = (if pat = [] then Some ([], []) else None)"
| "find_sub pat (x # xs) =
     (if prefix pat (x # xs) then Some ([], drop (length pat) (x # xs))
      else map_option (\<lambda>(p, rest). (x # p, rest)) (find_sub pat xs))"

definition str_replace :: "string \<Rightarrow> string \<Rightarrow> string \<Rightarrow> string" where
  "str_replace pat template s =
     (case find_sub pat s of
        None \<Rightarrow> s
      | Some (pre, post) \<Rightarrow>
          pre @ get_substitution pat pre post [] template @ post)"

text \<open>\<open>text.split(sep)\<close> for a one-character separator.\<close>

fun split_on :: "char \<Rightarrow> string \<Rightarrow> string list" where
  "split_on c [] = [[]]"
| "split_on c (x # xs) =
     (if x = c then [] # split_on c xs
      else (case split_on c xs of
              [] \<Rightarrow> [[x]]
            | p # ps \<Rightarrow> (x # p) # ps))"

section \<open>Maven coordinates (release-version-actions.js)\<close>

record coords =
  groupId :: string
  artifactId :: string

text \<open>
  \<open>parseMavenCoords\<close>: null for an empty name or one without a colon; otherwise the
  first two pieces of \<open>projectName.split(':', 2)\<close>, and null when one of them is empty.
\<close>

definition parseMavenCoords :: "string \<Rightarrow> coords option" where
  "parseMavenCoords projectName =
     (if projectName = [] \<or> CHR '':'' \<notin> set projectName then None
      else (case take 2 (split_on CHR '':'' projectName) of
              [g, a] \<Rightarrow>
                if g = [] \<or> a = [] then None
                else Some \<lparr>groupId = g, artifactId = a\<rparr>
            | _ \<Rightarrow> None))"

text \<open>
  The expressions that \<open>new RegExp\<close> builds from the coordinates. \<open>escapeRegExp\<close>
  puts a backslash before every syntax character, so that inside the expression the
  group id and the artifact id stand for themselves: a literal piece each.
\<close>

definition groupIdPart :: "coords \<Rightarrow> item list" where
  "groupIdPart c =
     [Lit ''<groupId>'', Star Space, Lit (groupId c), Star Space, Lit ''</groupId>'']"

definition artifactIdPart :: "coords \<Rightarrow> item list" where
  "artifactIdPart c =
     [Lit ''<artifactId>'', Star Space, Lit (artifactId c), Star Space, Lit ''</artifactId>'',
      Star Space, Lit ''<version>'', Plus (NoneOf ''<''), Lit ''</version>'']"

definition projectPattern :: "coords \<Rightarrow> item list" where
  "projectPattern c = groupIdPart c @ Lazy AnyChar # artifactIdPart c"

definition readProjectVersionFromPom :: "string \<Rightarrow> coords \<Rightarrow> string option" where
  "readProjectVersionFromPom pomXml c =
     (case rx_search (projectPattern c) pomXml of
        None \<Rightarrow> None
      | Some (pre, ws, post) \<Rightarrow> Some (group_text (13, 14) ws))"

definition updateProjectVersionInPom :: "string \<Rightarrow> coords \<Rightarrow> string \<Rightarrow> string option" where
  "updateProjectVersionInPom pomXml c newVersion =
     (if \<not> rx_test (projectPattern c) pomXml then None
      else Some (rx_replace (projectPattern c) [(0, 13), (13, 14), (14, 15)]
                   (''$1'' @ newVersion @ ''$3'') pomXml))"

definition depBlockPattern :: "coords \<Rightarrow> item list" where
  "depBlockPattern c =
     [Lit ''<dependency>'', Star Space, Lazy AnyChar,
      Lit ''<groupId>'', Star Space, Lit (groupId c), Star Space, Lit ''</groupId>'',
      Star Space, Lazy AnyChar,
      Lit ''<artifactId>'', Star Space, Lit (artifactId c), Star Space, Lit ''</artifactId>'',
      Lazy AnyChar, Lit ''</dependency>'']"

definition depVersionPattern :: "item list" where
  "depVersionPattern =
     [Lit ''<version>'', Star Space, Plus (NoneOf ''<''), Star Space, Lit ''</version>'']"

definition readDependencyVersionFromPom :: "string \<Rightarrow> coords \<Rightarrow> string option" where
  "readDependencyVersionFromPom pomXml c =
     (case rx_search (depBlockPattern c) pomXml of
        None \<Rightarrow> None
      | Some (pre, ws, post) \<Rightarrow>
          (case rx_search depVersionPattern (concat ws) of
             None \<Rightarrow> None
           | Some (pre', vs, post') \<Rightarrow> Some (group_text (2, 3) vs)))"

text \<open>
  \<open>updateDependencyVersionInPom\<close>: \<open>None\<close> is the source's null (no block found);
  a block without a version gives the text back as it is.
\<close>

definition updateDependencyVersionInPom :: "string \<Rightarrow> coords \<Rightarrow> string \<Rightarrow> string option" where
  "updateDependencyVersionInPom pomXml c newVersion =
     (case rx_search (depBlockPattern c) pomXml of
        None \<Rightarrow> None
      | Some (pre, ws, post) \<Rightarrow>
          (let depBlock = concat ws in
           if rx_test depVersionPattern depBlock
           then (let updatedBlock =
                       rx_replace depVersionPattern [(0, 2), (2, 3), (3, 5)]
                         (''$1'' @ newVersion @ ''$3'') depBlock
                 in Some (str_replace depBlock updatedBlock pomXml))
           else Some pomXml))"


subsection \<open>What a match looks like\<close>

text \<open>The text an item may consume.\<close>

fun piece_ok :: "item \<Rightarrow> string \<Rightarrow> bool" where
  "piece_ok (Lit t) w = (w = t)"
| "piece_ok (One c) w = (length w = 1 \<and> list_all (cmatch c) w)"
| "piece_ok (Star c) w = list_all (cmatch c) w"
| "piece_ok (Plus c) w = (w \<noteq> [] \<and> list_all (cmatch c) w)"
| "piece_ok (Lazy c) w = list_all (cmatch c) w"


section \<open>JavaScript values and plain objects\<close>

text \<open>
  A value as the generator meets one where it expects a specifier: \<open>undefined\<close>, a
  text, or a member that every plain object inherits from \<open>Object.prototype\<close> (a
  function, or for \<open>__proto__\<close> the prototype object itself), named by its key.
  Such a member is truthy and is not a text.
\<close>

datatype jsval = Undefined | Str string | Member string

definition truthy :: "jsval \<Rightarrow> bool" where
  "truthy x = (case x of Undefined \<Rightarrow> False | Str s \<Rightarrow> s \<noteq> [] | Member k \<Rightarrow> True)"

text \<open>
  A plain object \<open>{}\<close> whose properties hold texts is the list of its own
  properties. Reading a key that is not an own property goes to \<open>Object.prototype\<close>;
  assigning a text to the key \<open>__proto__\<close> stores nothing (its setter takes only
  objects and null).
\<close>

definition object_prototype_keys :: "string list" where
  "object_prototype_keys =
     [''constructor'', ''__defineGetter__'', ''__defineSetter__'', ''hasOwnProperty'',
      ''__lookupGetter__'', ''__lookupSetter__'', ''isPrototypeOf'', ''propertyIsEnumerable'',
      ''toString'', ''valueOf'', ''__proto__'', ''toLocaleString'']"

definition set_text_property ::
  "string \<Rightarrow> string \<Rightarrow> (string \<times> string) list \<Rightarrow> (string \<times> string) list"
where
  "set_text_property key v obj = (if key = ''__proto__'' then obj else AList.update key v obj)"

definition get_property :: "(string \<times> string) list \<Rightarrow> string \<Rightarrow> jsval" where
  "get_property obj key =
     (case map_of obj key of
        Some v \<Rightarrow> Str v
      | None \<Rightarrow> if key \<in> set object_prototype_keys then Member key else Undefined)"

section \<open>Writing the project version (release-version-actions.js, sync-pom-version.js)\<close>

text \<open>
  Files are a map from a path to the text stored there: \<open>tree\<close> for the virtual file
  tree the release framework hands to its actions, \<open>disk\<close> for the file system the
  scripts read and write directly. A thrown \<open>Error\<close> is a value of \<open>error\<close>; what the
  functions print is a list of \<open>logline\<close>s.
\<close>

type_synonym files = "string \<rightharpoonup> string"

datatype error =
    NoMavenCoords string            \<comment> \<open>the project name is not \<open>groupId:artifactId\<close>\<close>
  | ManifestUnreadable string       \<comment> \<open>\<open>Unable to read manifest\<close>\<close>
  | PatternNotMatched string string \<comment> \<open>\<open>Unable to update project version for ... in ...\<close>\<close>
  | NoProjects                      \<comment> \<open>\<open>No projects provided to version generator\<close>\<close>
  | OnlyDiskResolver                \<comment> \<open>\<open>Only "disk" resolver is supported\<close>\<close>
  | PomNotFound string              \<comment> \<open>\<open>pom.xml not found at ...\<close>\<close>
  | VersionNotInPom string          \<comment> \<open>\<open>Could not find version in pom.xml at ...\<close>\<close>
  | PackageJsonNotFound string      \<comment> \<open>\<open>package.json not found at ...\<close>\<close>
  | JsonSyntaxError string          \<comment> \<open>\<open>JSON.parse\<close> throws\<close>
  | NoVersionField string           \<comment> \<open>\<open>No version field in package.json at ...\<close>\<close>
  | CannotCalculate string jsval    \<comment> \<open>\<open>Could not calculate new version from ... with specifier ...\<close>\<close>

datatype logline =
    VersionWritten string string    \<comment> \<open>new version, manifest path\<close>
  | NoPomFound string               \<comment> \<open>\<open>No pom.xml found in ...\<close>\<close>
  | PomUpdated string string        \<comment> \<open>\<open>Updated pom.xml: old -> new\<close>\<close>
  | VersionTagNotFound              \<comment> \<open>\<open>Could not find <version> tag in pom.xml\<close>\<close>

text \<open>
  \<open>readText\<close>: the text at a path of the tree, null when the tree has no such file.
\<close>

definition readText :: "files \<Rightarrow> string \<Rightarrow> string option" where
  "readText tree filePath = tree filePath"

definition writeText :: "files \<Rightarrow> string \<Rightarrow> string \<Rightarrow> files" where
  "writeText tree filePath content = tree(filePath \<mapsto> content)"

text \<open>
  The loop of \<open>MavenVersionActions.updateProjectVersion\<close> over \<open>manifestsToUpdate\<close>
  (the manifest paths). \<open>!pomXml\<close> and \<open>!updated\<close> hold for null and for the empty
  text. A throw ends the loop; the manifests written before it stay written in the
  tree, which the error value does not carry.
\<close>

fun updateManifests ::
  "string \<Rightarrow> coords \<Rightarrow> string \<Rightarrow> string list \<Rightarrow> files \<Rightarrow> logline list \<Rightarrow> error + (files \<times> logline list)"
where
  "updateManifests projectName c newVersion [] tree logMessages = Inr (tree, logMessages)"
| "updateManifests projectName c newVersion (manifestPath # rest) tree logMessages =
     (case readText tree manifestPath of
        None \<Rightarrow> Inl (ManifestUnreadable manifestPath)
      | Some pomXml \<Rightarrow>
          if pomXml = [] then Inl (ManifestUnreadable manifestPath)
          else (case updateProjectVersionInPom pomXml c newVersion of
                  None \<Rightarrow> Inl (PatternNotMatched projectName manifestPath)
                | Some updated \<Rightarrow>
                    if updated = [] then Inl (PatternNotMatched projectName manifestPath)
                    else updateManifests projectName c newVersion rest
                           (writeText tree manifestPath updated)
                           (logMessages @ [VersionWritten newVersion manifestPath])))"

definition updateProjectVersion ::
  "string \<Rightarrow> string list \<Rightarrow> files \<Rightarrow> string \<Rightarrow> error + (files \<times> logline list)"
where
  "updateProjectVersion projectName manifestsToUpdate tree newVersion =
     (case parseMavenCoords projectName of
        None \<Rightarrow> Inl (NoMavenCoords projectName)
      | Some c \<Rightarrow> updateManifests projectName c newVersion manifestsToUpdate tree [])"

text \<open>
  \<open>path.join\<close> of two paths, as Node computes it for POSIX paths: the non-empty
  arguments are joined with \<open>/\<close> and the result is normalised. \<open>normalizeString\<close>
  walks the segments between the separators: an empty segment and \<open>.\<close> are dropped,
  \<open>..\<close> removes the segment before it (unless there is none or it is \<open>..\<close>
  itself, where \<open>..\<close> is kept if the path is relative), any other segment is kept.
\<close>

fun join_segments :: "string list \<Rightarrow> string" where
  "join_segments [] = []"
| "join_segments [s] = s"
| "join_segments (s # t # ss) = s @ CHR ''/'' # join_segments (t # ss)"

fun normalizeString :: "bool \<Rightarrow> string list \<Rightarrow> string list \<Rightarrow> string list" where
  "normalizeString allowAboveRoot [] res = res"
| "normalizeString allowAboveRoot (seg # segs) res =
     (if seg = [] \<or> seg = ''.'' then normalizeString allowAboveRoot segs res
      else if seg = ''..'' then
        (if res \<noteq> [] \<and> last res \<noteq> ''..''
         then normalizeString allowAboveRoot segs (butlast res)
         else if allowAboveRoot then normalizeString allowAboveRoot segs (res @ [''..''])
         else normalizeString allowAboveRoot segs res)
      else normalizeString allowAboveRoot segs (res @ [seg]))"

definition path_normalize :: "string \<Rightarrow> string" where
  "path_normalize path =
     (if path = [] then ''.''
      else
        (let isAbsolute = (hd path = CHR ''/'');
             trailingSeparator = (last path = CHR ''/'');
             p = join_segments (normalizeString (\<not> isAbsolute) (split_on CHR ''/'' path) [])
         in if p = [] then (if isAbsolute then ''/'' else if trailingSeparator then ''./'' else ''.'')
            else (if isAbsolute then ''/'' else []) @ p
                 @ (if trailingSeparator then ''/'' else [])))"

definition path_join :: "string \<Rightarrow> string \<Rightarrow> string" where
  "path_join a b =
     (if a = [] then path_normalize b
      else if b = [] then path_normalize a
      else path_normalize (a @ CHR ''/'' # b))"

text \<open>
  \<open>updatePomVersion\<close> of the sync script: no coordinates, the first \<open><version>\<close>
  element whose text is made of letters, digits, dots and hyphens. It returns nothing
  and throws nothing: the result is the disk afterwards and what was printed.
\<close>

definition versionRegex :: "item list" where
  "versionRegex = [Lit ''<version>'', Plus VersionChar, Lit ''</version>'']"

definition updatePomVersion :: "files \<Rightarrow> string \<Rightarrow> string \<Rightarrow> files \<times> logline list" where
  "updatePomVersion disk projectRoot newVersion =
     (let pomPath = path_join projectRoot ''pom.xml'' in
      case disk pomPath of
        None \<Rightarrow> (disk, [NoPomFound projectRoot])
      | Some pomContent \<Rightarrow>
          (case rx_search versionRegex pomContent of
             Some (pre, ws, post) \<Rightarrow>
               (disk(pomPath \<mapsto>
                  rx_replace versionRegex [(0, 1), (1, 2), (2, 3)]
                    (''$1'' @ newVersion @ ''$3'') pomContent),
                [PomUpdated (group_text (1, 2) ws) newVersion])
           | None \<Rightarrow> (disk, [VersionTagNotFound])))"

section \<open>Version plans (the release script and the generator)\<close>

text \<open>
  The header of a plan file, \<open>/^---\s*\n([\s\S]*?)\n---/\<close>: without the \<open>m\<close> flag
  \<open>^\<close> is the start of the text, so the expression is tried there only. A header line,
  \<open>/['"]([^'"]+)['"]\s*:\s*(\w+)/\<close>, is searched for anywhere in the line.
\<close>

definition frontMatterPattern :: "item list" where
  "frontMatterPattern =
     [Lit ''---'', Star Space, Lit [CHR 0x0A], Lazy AnyChar, Lit (CHR 0x0A # ''---'')]"

definition planLinePattern :: "item list" where
  "planLinePattern =
     [One (OneOf [CHR 0x27, CHR 0x22]), Plus (NoneOf [CHR 0x27, CHR 0x22]),
      One (OneOf [CHR 0x27, CHR 0x22]), Star Space, Lit '':'', Star Space, Plus WordChar]"

definition frontMatter :: "string \<Rightarrow> string option" where
  "frontMatter content =
     (case rx_match_here frontMatterPattern content of
        None \<Rightarrow> None
      | Some (ws, rest) \<Rightarrow> Some (group_text (3, 4) ws))"

definition planLineEntry :: "string \<Rightarrow> (string \<times> string) option" where
  "planLineEntry line =
     (case rx_search planLinePattern line of
        None \<Rightarrow> None
      | Some (pre, ws, post) \<Rightarrow> Some (group_text (1, 2) ws, group_text (6, 7) ws))"

text \<open>
  \<open>projectsToRelease\<close> is a \<open>Map\<close>: an association list in insertion order, where
  setting a key that is present replaces its value in place.
\<close>

fun applyPlanLines :: "string list \<Rightarrow> (string \<times> string) list \<Rightarrow> (string \<times> string) list" where
  "applyPlanLines [] m = m"
| "applyPlanLines (line # lines) m =
     (case planLineEntry line of
        None \<Rightarrow> applyPlanLines lines m
      | Some (projectName, specifier) \<Rightarrow>
          applyPlanLines lines (AList.update projectName specifier m))"

definition applyPlanFile :: "string \<Rightarrow> (string \<times> string) list \<Rightarrow> (string \<times> string) list" where
  "applyPlanFile content m =
     (case frontMatter content of
        None \<Rightarrow> m
      | Some yamlContent \<Rightarrow> applyPlanLines (split_on (CHR 0x0A) yamlContent) m)"

text \<open>The loop over the plan files, given their texts in the order they are processed.\<close>

fun mergePlans :: "string list \<Rightarrow> (string \<times> string) list \<Rightarrow> (string \<times> string) list" where
  "mergePlans [] m = m"
| "mergePlans (content # contents) m = mergePlans contents (applyPlanFile content m)"

text \<open>What one plan file alone assigns to a project.\<close>

definition planAssigns :: "string \<Rightarrow> string \<Rightarrow> string option" where
  "planAssigns content = map_of (applyPlanFile content [])"

section \<open>Reading and writing a manifest (version-resolver.js)\<close>

text \<open>
  The library functions the sources call are parameters of the model:
  \<^item> \<open>json_version text\<close> is \<open>None\<close> when \<open>JSON.parse(text)\<close> throws, \<open>Some None\<close>
    when the parsed object has no \<open>version\<close>, and \<open>Some (Some v)\<close> for the version
    text \<open>v\<close>;
  \<^item> \<open>json_with_version text v\<close> is the text \<open>JSON.stringify\<close> gives, followed by a
    newline, for the parsed object with \<open>version\<close> set to \<open>v\<close> (\<open>None\<close> when
    \<open>JSON.parse\<close> throws);
  \<^item> \<open>semver_valid\<close> tells whether \<open>semver.valid\<close> returns a version for a
    text, and \<open>semver_inc\<close> is \<open>semver.inc\<close> for texts, \<open>None\<close> for its null.
  A file is named by its path from the working directory, on the disk and in the
  tree alike, which is what \<open>path.relative(process.cwd(), ...)\<close> makes of a path
  joined onto \<open>process.cwd()\<close>.
\<close>

record libs =
  json_version :: "string \<Rightarrow> string option option"
  json_with_version :: "string \<Rightarrow> string \<Rightarrow> string option"
  semver_valid :: "string \<Rightarrow> bool"
  semver_inc :: "string \<Rightarrow> string \<Rightarrow> string option \<Rightarrow> string option"

definition isMavenProject :: "files \<Rightarrow> string \<Rightarrow> bool" where
  "isMavenProject disk projectRoot = (disk (path_join projectRoot ''pom.xml'') \<noteq> None)"

definition pomVersionPattern :: "item list" where
  "pomVersionPattern =
     [Lit ''<artifactId>'', Plus (NoneOf ''<''), Lit ''</artifactId>'', Star Space,
      Lit ''<version>'', Plus (NoneOf ''<''), Lit ''</version>'']"

definition getVersionFromPom :: "files \<Rightarrow> string \<Rightarrow> error + string" where
  "getVersionFromPom disk projectRoot =
     (let pomPath = path_join projectRoot ''pom.xml'' in
      case disk pomPath of
        None \<Rightarrow> Inl (PomNotFound pomPath)
      | Some pomContent \<Rightarrow>
          (case rx_search pomVersionPattern pomContent of
             None \<Rightarrow> Inl (VersionNotInPom pomPath)
           | Some (pre, ws, post) \<Rightarrow> Inr (group_text (5, 6) ws)))"

definition getVersionFromPackageJson :: "libs \<Rightarrow> files \<Rightarrow> string \<Rightarrow> error + string" where
  "getVersionFromPackageJson L disk projectRoot =
     (let packagePath = path_join projectRoot ''package.json'' in
      case disk packagePath of
        None \<Rightarrow> Inl (PackageJsonNotFound packagePath)
      | Some content \<Rightarrow>
          (case json_version L content of
             None \<Rightarrow> Inl (JsonSyntaxError packagePath)
           | Some None \<Rightarrow> Inl (NoVersionField packagePath)
           | Some (Some v) \<Rightarrow> if v = [] then Inl (NoVersionField packagePath) else Inr v))"

definition getVersion :: "libs \<Rightarrow> files \<Rightarrow> string \<Rightarrow> error + string" where
  "getVersion L disk projectRoot =
     (if isMavenProject disk projectRoot then getVersionFromPom disk projectRoot
      else getVersionFromPackageJson L disk projectRoot)"

text \<open>
  The writers take the tree when there is one: the text comes from the tree if the
  tree has the file and from the disk otherwise, and the new text goes to the tree, or
  to the disk when there is no tree. \<open>setVersionInPom\<close> replaces without a test: when
  the expression finds nothing the same text is written back.
\<close>

definition currentText :: "files \<Rightarrow> files option \<Rightarrow> string \<Rightarrow> string \<Rightarrow> string" where
  "currentText disk tree filePath diskText =
     (case tree of
        None \<Rightarrow> diskText
      | Some t \<Rightarrow> (case t filePath of None \<Rightarrow> diskText | Some treeText \<Rightarrow> treeText))"

definition writeFile :: "files \<Rightarrow> files option \<Rightarrow> string \<Rightarrow> string \<Rightarrow> files \<times> files option" where
  "writeFile disk tree filePath content =
     (case tree of
        None \<Rightarrow> (disk(filePath \<mapsto> content), None)
      | Some t \<Rightarrow> (disk, Some (t(filePath \<mapsto> content))))"

definition setVersionInPom ::
  "files \<Rightarrow> files option \<Rightarrow> string \<Rightarrow> string \<Rightarrow> error + (files \<times> files option)"
where
  "setVersionInPom disk tree projectRoot newVersion =
     (let pomPath = path_join projectRoot ''pom.xml'' in
      case disk pomPath of
        None \<Rightarrow> Inl (PomNotFound pomPath)
      | Some diskText \<Rightarrow>
          Inr (writeFile disk tree pomPath
                 (rx_replace pomVersionPattern [(0, 5), (6, 7)] (''$1'' @ newVersion @ ''$2'')
                    (currentText disk tree pomPath diskText))))"

definition setVersionInPackageJson ::
  "libs \<Rightarrow> files \<Rightarrow> files option \<Rightarrow> string \<Rightarrow> string \<Rightarrow> error + (files \<times> files option)"
where
  "setVersionInPackageJson L disk tree projectRoot newVersion =
     (let packagePath = path_join projectRoot ''package.json'' in
      case disk packagePath of
        None \<Rightarrow> Inl (PackageJsonNotFound packagePath)
      | Some diskText \<Rightarrow>
          (case json_with_version L (currentText disk tree packagePath diskText) newVersion of
             None \<Rightarrow> Inl (JsonSyntaxError packagePath)
           | Some newContent \<Rightarrow> Inr (writeFile disk tree packagePath newContent)))"

definition setVersion ::
  "libs \<Rightarrow> files \<Rightarrow> files option \<Rightarrow> string \<Rightarrow> string \<Rightarrow> error + (files \<times> files option)"
where
  "setVersion L disk tree projectRoot newVersion =
     (if isMavenProject disk projectRoot then setVersionInPom disk tree projectRoot newVersion
      else setVersionInPackageJson L disk tree projectRoot newVersion)"

section \<open>The version generator (generator.js and its earlier copy)\<close>

record project =
  p_name :: string    \<comment> \<open>\<open>project.name\<close>\<close>
  p_root :: string    \<comment> \<open>\<open>project.data.root\<close>\<close>

record versionData =
  vd_currentVersion :: string
  vd_newVersion :: string
  vd_projectRoot :: string

record options =
  opt_specifier :: "string option"
  opt_preid :: "string option"
  opt_currentVersionResolver :: string
  opt_projects :: "project list option"
  opt_specifierSource :: "string option"

text \<open>
  \<open>process.cwd()\<close>: with every file named from the working directory, it is \<open>.\<close>.
\<close>

definition workspaceRoot :: string where
  "workspaceRoot = ''.''"

text \<open>
  The library parses texts only and catches its own errors: for a specifier that is
  not a text \<open>semver.valid\<close> and \<open>semver.inc\<close> give null.
\<close>

definition semverValid :: "libs \<Rightarrow> jsval \<Rightarrow> bool" where
  "semverValid L x = (case x of Str s \<Rightarrow> semver_valid L s | _ \<Rightarrow> False)"

definition semverInc :: "libs \<Rightarrow> string \<Rightarrow> jsval \<Rightarrow> string option \<Rightarrow> string option" where
  "semverInc L version x preid = (case x of Str s \<Rightarrow> semver_inc L version s preid | _ \<Rightarrow> None)"

text \<open>
  The new version: the specifier itself when it is a version, the increment of the
  current version for any other truthy specifier, the current version when the
  specifier is falsy. \<open>None\<close> is null.
\<close>

definition nextVersion :: "libs \<Rightarrow> string \<Rightarrow> jsval \<Rightarrow> string option \<Rightarrow> string option" where
  "nextVersion L currentVersion projectSpecifier preid =
     (if semverValid L projectSpecifier
      then (case projectSpecifier of Str s \<Rightarrow> Some s | _ \<Rightarrow> None)
      else if truthy projectSpecifier then semverInc L currentVersion projectSpecifier preid
      else Some currentVersion)"

text \<open>
  The body of the loop, for one project and its specifier: the files afterwards and
  the entry stored in \<open>results\<close> under the project's name. The current version is
  read from the disk, the new one goes to the tree.
\<close>

definition processProject ::
  "libs \<Rightarrow> string \<Rightarrow> string option \<Rightarrow> jsval \<Rightarrow> files \<times> files option \<Rightarrow> project
   \<Rightarrow> error + ((files \<times> files option) \<times> versionData)"
where
  "processProject L currentVersionResolver preid projectSpecifier st p =
     (let resolvedPackageRoot = path_join workspaceRoot (p_root p) in
      case (if currentVersionResolver = ''disk'' then getVersion L (fst st) resolvedPackageRoot
            else Inl OnlyDiskResolver) of
        Inl e \<Rightarrow> Inl e
      | Inr currentVersion \<Rightarrow>
          (let newVersion = nextVersion L currentVersion projectSpecifier preid in
           if (newVersion = None \<or> newVersion = Some []) \<and> truthy projectSpecifier
           then Inl (CannotCalculate currentVersion projectSpecifier)
           else
             (case (if truthy projectSpecifier \<and> newVersion \<noteq> Some currentVersion
                    then setVersion L (fst st) (snd st) resolvedPackageRoot
                           (case newVersion of Some v \<Rightarrow> v | None \<Rightarrow> [])
                    else Inr st) of
                Inl e \<Rightarrow> Inl e
              | Inr st' \<Rightarrow>
                  Inr (st',
                       \<lparr>vd_currentVersion = currentVersion,
                        vd_newVersion = (case newVersion of
                                           Some v \<Rightarrow> if v = [] then currentVersion else v
                                         | None \<Rightarrow> currentVersion),
                        vd_projectRoot = p_root p\<rparr>))))"

text \<open>
  \<open>results\<close> is a plain object whose properties hold entries. Assigning an entry to
  the key \<open>__proto__\<close> makes the entry the prototype of \<open>results\<close> and adds no
  property; any other key becomes, or stays, an own property.
\<close>

record results =
  own_entries :: "(string \<times> versionData) list"
  prototype_entry :: "versionData option"

definition empty_results :: results where
  "empty_results = \<lparr>own_entries = [], prototype_entry = None\<rparr>"

definition set_entry :: "string \<Rightarrow> versionData \<Rightarrow> results \<Rightarrow> results" where
  "set_entry key entry r =
     (if key = ''__proto__'' then r\<lparr>prototype_entry := Some entry\<rparr>
      else r\<lparr>own_entries := AList.update key entry (own_entries r)\<rparr>)"

text \<open>The entry that \<open>results[key]\<close> gives, when it gives one.\<close>

definition get_entry :: "results \<Rightarrow> string \<Rightarrow> versionData option" where
  "get_entry r key = (if key = ''__proto__'' then prototype_entry r else map_of (own_entries r) key)"

text \<open>The loop over the projects; \<open>specifierOf\<close> is how a copy finds a project's specifier.\<close>

fun processProjects ::
  "libs \<Rightarrow> string \<Rightarrow> string option \<Rightarrow> (project \<Rightarrow> jsval) \<Rightarrow> project list
   \<Rightarrow> (files \<times> files option) \<times> results
   \<Rightarrow> error + ((files \<times> files option) \<times> results)"
where
  "processProjects L currentVersionResolver preid specifierOf [] state = Inr state"
| "processProjects L currentVersionResolver preid specifierOf (p # ps) state =
     (case processProject L currentVersionResolver preid (specifierOf p) (fst state) p of
        Inl e \<Rightarrow> Inl e
      | Inr (st', entry) \<Rightarrow>
          processProjects L currentVersionResolver preid specifierOf ps
            (st', set_entry (p_name p) entry (snd state)))"

text \<open>
  \<open>parseVersionPlans\<close> of \<open>generator.js\<close>: the texts of the plan files in the order
  of the directory listing, \<open>None\<close> when the directory does not exist. The headers
  are read as in the release script, but \<open>specifierMap\<close> is a plain object.
\<close>

fun specifierLines :: "string list \<Rightarrow> (string \<times> string) list \<Rightarrow> (string \<times> string) list" where
  "specifierLines [] specifierMap = specifierMap"
| "specifierLines (line # lines) specifierMap =
     (case planLineEntry line of
        None \<Rightarrow> specifierLines lines specifierMap
      | Some (projectName, specifier) \<Rightarrow>
          specifierLines lines (set_text_property projectName specifier specifierMap))"

fun specifierFiles :: "string list \<Rightarrow> (string \<times> string) list \<Rightarrow> (string \<times> string) list" where
  "specifierFiles [] specifierMap = specifierMap"
| "specifierFiles (content # contents) specifierMap =
     specifierFiles contents
       (case frontMatter content of
          None \<Rightarrow> specifierMap
        | Some yamlContent \<Rightarrow> specifierLines (split_on (CHR 0x0A) yamlContent) specifierMap)"

definition parseVersionPlans :: "string list option \<Rightarrow> (string \<times> string) list" where
  "parseVersionPlans planTexts =
     (case planTexts of None \<Rightarrow> [] | Some texts \<Rightarrow> specifierFiles texts [])"

text \<open>
  The specifier of a project in \<open>generator.js\<close>: with the plans as source,
  \<open>specifierMap[projectName] || ''\<close>, which for a name that is no own property but a
  key of \<open>Object.prototype\<close> is the inherited member; otherwise the one specifier of
  the options.
\<close>

definition globalSpecifier :: "options \<Rightarrow> jsval" where
  "globalSpecifier opts = (case opt_specifier opts of None \<Rightarrow> Undefined | Some s \<Rightarrow> Str s)"

definition projectSpecifierOf :: "options \<Rightarrow> (string \<times> string) list \<Rightarrow> project \<Rightarrow> jsval" where
  "projectSpecifierOf opts specifierMap p =
     (if opt_specifierSource opts = Some ''version-plans''
      then (if truthy (get_property specifierMap (p_name p))
            then get_property specifierMap (p_name p) else Str [])
      else globalSpecifier opts)"

text \<open>
  \<open>versionGenerator\<close> of \<open>generator.js\<close>. The function ends after the loop, with no
  \<open>return\<close>: when it does not throw it resolves to \<open>undefined\<close>, here \<open>None\<close>, and the
  object \<open>results\<close> is dropped. What is left of a run is the files.
\<close>

definition versionGenerator ::
  "libs \<Rightarrow> files \<Rightarrow> files \<Rightarrow> string list option \<Rightarrow> options
   \<Rightarrow> error + ((files \<times> files option) \<times> results option)"
where
  "versionGenerator L disk tree planTexts opts =
     (case opt_projects opts of
        None \<Rightarrow> Inl NoProjects
      | Some projects \<Rightarrow>
          if projects = [] then Inl NoProjects
          else
            (let specifierMap =
                   (if opt_specifierSource opts = Some ''version-plans''
                    then parseVersionPlans planTexts else [])
             in case processProjects L (opt_currentVersionResolver opts) (opt_preid opts)
                       (projectSpecifierOf opts specifierMap) projects
                       ((disk, Some tree), empty_results) of
                  Inl e \<Rightarrow> Inl e
                | Inr (st, results) \<Rightarrow> Inr (st, None)))"

text \<open>
  The earlier copy of the generator (\<open>src/unnamed/part_001\<close>): it reads no plans, every
  project has the specifier of the options, and it returns \<open>results\<close> as the \<open>data\<close>
  of its result (the \<open>callback\<close> beside it changes no file).
\<close>

definition versionGenerator_part_001 ::
  "libs \<Rightarrow> files \<Rightarrow> files \<Rightarrow> options
   \<Rightarrow> error + ((files \<times> files option) \<times> results option)"
where
  "versionGenerator_part_001 L disk tree opts =
     (case opt_projects opts of
        None \<Rightarrow> Inl NoProjects
      | Some projects \<Rightarrow>
          if projects = [] then Inl NoProjects
          else
            (case processProjects L (opt_currentVersionResolver opts) (opt_preid opts)
                    (\<lambda>p. globalSpecifier opts) projects
                    ((disk, Some tree), empty_results) of
               Inl e \<Rightarrow> Inl e
             | Inr (st, results) \<Rightarrow> Inr (st, Some results)))"

section \<open>The release script\<close>

text \<open>
  What the script does to the world is a trace of events: a command run with
  \<open>execSync\<close> and whether it returned (\<open>True\<close>) or threw, a plan file removed with
  \<open>unlinkSync\<close> and whether that returned or threw, and the exit status. What it
  prints is left out. The world is a parameter:
  \<^item> \<open>env_args\<close>, the command line arguments;
  \<^item> \<open>env_plansDir\<close>, the listing of the plan directory, each name with the text of
    the file, or \<open>None\<close> when the directory does not exist;
  \<^item> \<open>env_execOk\<close> and \<open>env_unlinkOk\<close>, whether a command, or the removal of a
    file, succeeds;
  \<^item> \<open>env_versionOf\<close>, the version the script finds on disk for a project after
    the version command (its step 2, where every failure is caught and leaves the
    project without an entry).
\<close>

datatype event = Exec string bool | Unlink string bool | Exit nat

record release_env =
  env_args :: "string list"
  env_plansDir :: "(string \<times> string) list option"
  env_execOk :: "string \<Rightarrow> bool"
  env_unlinkOk :: "string \<Rightarrow> bool"
  env_versionOf :: "string \<Rightarrow> string option"

text \<open>\<open>args[args.indexOf(key) + 1]\<close>, undefined past the end.\<close>

fun arg_after :: "string \<Rightarrow> string list \<Rightarrow> string option" where
  "arg_after key [] = None"
| "arg_after key (x # xs) =
     (if x = key then (case xs of [] \<Rightarrow> None | y # ys \<Rightarrow> Some y) else arg_after key xs)"

definition isDryRun :: "release_env \<Rightarrow> bool" where
  "isDryRun env = (''--dry-run'' \<in> set (env_args env))"

definition versionCmd :: "release_env \<Rightarrow> string" where
  "versionCmd env =
     (case arg_after ''--preid'' (env_args env) of
        None \<Rightarrow> ''npx nx release version --git-commit=false --stage-changes=false''
      | Some preid \<Rightarrow>
          if preid = [] then ''npx nx release version --git-commit=false --stage-changes=false''
          else ''npx nx release version --preid '' @ preid
               @ '' --git-commit=false --stage-changes=false'')"

definition changelogCmd :: "string \<Rightarrow> string \<Rightarrow> string" where
  "changelogCmd projectName version =
     ''npx nx release changelog '' @ version @ '' --projects='' @ [CHR 0x22] @ projectName
     @ [CHR 0x22] @ '' --git-commit=false''"

definition lockfileCmd :: string where
  "lockfileCmd = ''npm install --package-lock-only''"

text \<open>Step 2: the projects of the plans for which a version is found.\<close>

definition updatedVersions :: "release_env \<Rightarrow> (string \<times> string) list \<Rightarrow> (string \<times> string) list" where
  "updatedVersions env projectsToRelease =
     List.map_filter
       (\<lambda>(projectName, specifier).
          case env_versionOf env projectName of
            None \<Rightarrow> None
          | Some version \<Rightarrow> if version = [] then None else Some (projectName, version))
       projectsToRelease"

text \<open>Step 3: one changelog command per project; a command that throws is a warning.\<close>

definition changelogEvents :: "release_env \<Rightarrow> (string \<times> string) list \<Rightarrow> event list" where
  "changelogEvents env versions =
     (if isDryRun env then []
      else map (\<lambda>(projectName, version).
                  Exec (changelogCmd projectName version)
                    (env_execOk env (changelogCmd projectName version)))
             versions)"

text \<open>
  Step 4: the plan files are removed in turn; a removal that throws is not caught and
  ends the script. The result tells whether all removals returned.
\<close>

fun unlinkEvents :: "release_env \<Rightarrow> string list \<Rightarrow> event list \<times> bool" where
  "unlinkEvents env [] = ([], True)"
| "unlinkEvents env (file # files) =
     (if env_unlinkOk env file
      then (case unlinkEvents env files of (es, ok) \<Rightarrow> (Unlink file True # es, ok))
      else ([Unlink file False], False))"

definition releaseScript :: "release_env \<Rightarrow> event list" where
  "releaseScript env =
     (case env_plansDir env of
        None \<Rightarrow> [Exit 1]
      | Some listing \<Rightarrow>
          (let planFiles = filter (\<lambda>(f, text). suffix ''.md'' f) listing in
           if planFiles = [] then [Exit 1]
           else
             (let projectsToRelease = mergePlans (map snd planFiles) [] in
              if projectsToRelease = [] then [Exit 1]
              else if \<not> isDryRun env \<and> \<not> env_execOk env (versionCmd env)
              then [Exec (versionCmd env) False, Exit 1]
              else
                (if isDryRun env then [] else [Exec (versionCmd env) True])
                @ changelogEvents env (updatedVersions env projectsToRelease)
                @ (if isDryRun env then
                     [Exit 0]
                   else
                     (case unlinkEvents env (map fst planFiles) of
                        (es, ok) \<Rightarrow>
                          es
                          @ (if \<not> ok then [Exit 1]
                             else if env_execOk env lockfileCmd
                             then [Exec lockfileCmd True, Exit 0]
                             else [Exec lockfileCmd False, Exit 1]))))))"

text \<open>The events that may follow the first removal of a plan file.\<close>

definition after_delete :: "event \<Rightarrow> bool" where
  "after_delete e = (case e of Unlink f ok \<Rightarrow> True | Exec cmd ok \<Rightarrow> cmd = lockfileCmd | Exit n \<Rightarrow> True)"

section \<open>Evaluating the model on a given text\<close>

text \<open>The definitions to unfold when a function of the model is run on a concrete input.\<close>

lemmas rx_eval =
  rx_test_def rx_replace_def str_replace_def rx_match_here_def group_text_def
  is_space_def is_digit_def is_alpha_def digit_val_def Let_def

lemmas plan_eval =
  planAssigns_def applyPlanFile_def frontMatter_def planLineEntry_def
  frontMatterPattern_def planLinePattern_def

lemmas pom_eval =
  updateProjectVersionInPom_def readProjectVersionFromPom_def projectPattern_def
  groupIdPart_def artifactIdPart_def

lemmas release_eval =
  releaseScript_def isDryRun_def versionCmd_def changelogCmd_def lockfileCmd_def
  updatedVersions_def changelogEvents_def List.map_filter_simps suffix_to_prefix

lemmas path_eval =
  path_join_def path_normalize_def

lemmas generator_eval =
  versionGenerator_def versionGenerator_part_001_def processProject_def nextVersion_def
  semverValid_def semverInc_def truthy_def globalSpecifier_def projectSpecifierOf_def
  parseVersionPlans_def get_property_def set_text_property_def object_prototype_keys_def
  set_entry_def empty_results_def workspaceRoot_def
  getVersion_def getVersionFromPom_def isMavenProject_def pomVersionPattern_def

section \<open>The matcher finds a match when there is one, and only a match\<close>

lemma greedy_sound:
  "greedy c k s = Some (w, a) \<Longrightarrow> \<exists>rest. s = w @ rest \<and> list_all (cmatch c) w \<and> k rest = Some a"
proof (induction s arbitrary: w a)
  case Nil
  then show ?case by auto
next
  case (Cons x xs)
  show ?case
  proof (cases "cmatch c x \<and> greedy c k xs \<noteq> None")
    case True
    then obtain w' a' where g: "greedy c k xs = Some (w', a')" by auto
    with True Cons.prems have "w = x # w'" "a = a'" by auto
    with Cons.IH [OF g] True show ?thesis by auto
  next
    case False
    with Cons.prems have "w = []" "k (x # xs) = Some a"
      by (auto split: if_splits option.splits)
    then show ?thesis by auto
  qed
qed

lemma greedy_base: "k s \<noteq> None \<Longrightarrow> greedy c k s \<noteq> None"
  by (cases s) (auto split: option.splits)

lemma greedy_complete:
  "list_all (cmatch c) w \<Longrightarrow> k rest \<noteq> None \<Longrightarrow> greedy c k (w @ rest) \<noteq> None"
  by (induction w) (auto simp: greedy_base split: option.splits)

lemma lazy_sound:
  "lazy c k s = Some (w, a) \<Longrightarrow> \<exists>rest. s = w @ rest \<and> list_all (cmatch c) w \<and> k rest = Some a"
proof (induction s arbitrary: w a)
  case Nil
  then show ?case by auto
next
  case (Cons x xs)
  show ?case
  proof (cases "k (x # xs)")
    case (Some a')
    with Cons.prems show ?thesis by auto
  next
    case None
    with Cons.prems obtain w' where "cmatch c x" "lazy c k xs = Some (w', a)" "w = x # w'"
      by (auto split: if_splits)
    with Cons.IH [of w' a] show ?thesis by auto
  qed
qed

lemma lazy_base: "k s \<noteq> None \<Longrightarrow> lazy c k s \<noteq> None"
  by (cases s) (auto split: option.splits)

lemma lazy_complete:
  "list_all (cmatch c) w \<Longrightarrow> k rest \<noteq> None \<Longrightarrow> lazy c k (w @ rest) \<noteq> None"
  by (induction w) (auto simp: lazy_base split: option.splits)

lemma lazy_minimal:
  "lazy c k s = Some (w1 @ w2, a) \<Longrightarrow> w2 \<noteq> [] \<Longrightarrow> k (drop (length w1) s) = None"
proof (induction s arbitrary: w1)
  case Nil
  then show ?case by auto
next
  case (Cons x xs)
  show ?case
  proof (cases "k (x # xs)")
    case (Some a')
    with Cons.prems show ?thesis by auto
  next
    case None
    with Cons.prems obtain w' where l: "lazy c k xs = Some (w', a)" and w: "w1 @ w2 = x # w'"
      by (auto split: if_splits)
    show ?thesis
    proof (cases w1)
      case Nil
      with None show ?thesis by simp
    next
      case (Cons y ys)
      with w have "w' = ys @ w2" by simp
      with l Cons.IH [of ys] Cons.prems(2) Cons show ?thesis by simp
    qed
  qed
qed

lemma rx_run_sound:
  "rx_run r k s = Some (ws, a) \<Longrightarrow>
     \<exists>rest. s = concat ws @ rest \<and> list_all2 piece_ok r ws \<and> k rest = Some a"
proof (induction r arbitrary: s ws a)
  case Nil
  then show ?case by auto
next
  case (Cons i r)
  show ?case
  proof (cases i)
    case (Lit t)
    with Cons.prems obtain ws' where p: "prefix t s"
      and r: "rx_run r k (drop (length t) s) = Some (ws', a)" and ws: "ws = t # ws'"
      by (auto split: if_splits)
    from p have "s = t @ drop (length t) s" by (auto simp: prefix_def)
    with Cons.IH [OF r] ws Lit show ?thesis by (metis append.assoc concat.simps(2) list_all2_Cons piece_ok.simps(1))
  next
    case (One c)
    with Cons.prems obtain x xs ws' where s: "s = x # xs" and c: "cmatch c x"
      and r: "rx_run r k xs = Some (ws', a)" and ws: "ws = [x] # ws'"
      by (auto split: if_splits list.splits)
    with Cons.IH [OF r] One show ?thesis by auto
  next
    case (Star c)
    with Cons.prems obtain w ws' where g: "greedy c (rx_run r k) s = Some (w, ws', a)"
      and ws: "ws = w # ws'"
      by auto
    from greedy_sound [OF g] obtain rest where "s = w @ rest" "list_all (cmatch c) w"
      "rx_run r k rest = Some (ws', a)" by auto
    with Cons.IH [of rest ws' a] ws Star show ?thesis by auto
  next
    case (Plus c)
    with Cons.prems obtain x xs w ws' where s: "s = x # xs" and c: "cmatch c x"
      and g: "greedy c (rx_run r k) xs = Some (w, ws', a)" and ws: "ws = (x # w) # ws'"
      by (auto split: if_splits list.splits)
    from greedy_sound [OF g] obtain rest where "xs = w @ rest" "list_all (cmatch c) w"
      "rx_run r k rest = Some (ws', a)" by auto
    with Cons.IH [of rest ws' a] ws Plus s c show ?thesis by auto
  next
    case (Lazy c)
    with Cons.prems obtain w ws' where g: "lazy c (rx_run r k) s = Some (w, ws', a)"
      and ws: "ws = w # ws'"
      by auto
    from lazy_sound [OF g] obtain rest where "s = w @ rest" "list_all (cmatch c) w"
      "rx_run r k rest = Some (ws', a)" by auto
    with Cons.IH [of rest ws' a] ws Lazy show ?thesis by auto
  qed
qed

lemma rx_run_complete:
  "list_all2 piece_ok r ws \<Longrightarrow> k rest \<noteq> None \<Longrightarrow> rx_run r k (concat ws @ rest) \<noteq> None"
proof (induction r arbitrary: ws)
  case Nil
  then show ?case by auto
next
  case (Cons i r)
  from Cons.prems(1) obtain w ws' where ws: "ws = w # ws'" and p: "piece_ok i w"
    and l: "list_all2 piece_ok r ws'"
    by (auto simp: list_all2_Cons1)
  have ih: "rx_run r k (concat ws' @ rest) \<noteq> None"
    using Cons.IH [OF l Cons.prems(2)] .
  show ?case
  proof (cases i)
    case (Lit t)
    with p ih ws show ?thesis by auto
  next
    case (One c)
    with p obtain x where "w = [x]" "cmatch c x" by (cases w) auto
    with ih ws One show ?thesis by auto
  next
    case (Star c)
    with p have "list_all (cmatch c) w" by simp
    from greedy_complete [of c w "rx_run r k" "concat ws' @ rest", OF this ih] ws Star
    show ?thesis by auto
  next
    case (Plus c)
    with p obtain x w' where w: "w = x # w'" and c: "cmatch c x" "list_all (cmatch c) w'"
      by (cases w) auto
    from greedy_complete [of c w' "rx_run r k" "concat ws' @ rest", OF c(2) ih] ws Plus w c(1)
    show ?thesis by auto
  next
    case (Lazy c)
    with p have "list_all (cmatch c) w" by simp
    from lazy_complete [of c w "rx_run r k" "concat ws' @ rest", OF this ih] ws Lazy
    show ?thesis by auto
  qed
qed

lemma greedy_map:
  "greedy c (\<lambda>s. map_option f (k s)) s = map_option (\<lambda>(w, a). (w, f a)) (greedy c k s)"
  by (induction s) (auto simp: option.map_comp comp_def split_def split: option.splits)

lemma lazy_map:
  "lazy c (\<lambda>s. map_option f (k s)) s = map_option (\<lambda>(w, a). (w, f a)) (lazy c k s)"
  by (induction s) (auto simp: option.map_comp comp_def split_def split: option.splits)

lemma rx_run_append:
  "rx_run (r1 @ r2) k s =
     map_option (\<lambda>(w1, w2, a). (w1 @ w2, a)) (rx_run r1 (rx_run r2 k) s)"
proof (induction r1 arbitrary: s)
  case Nil
  show ?case by (cases "rx_run r2 k s") auto
next
  case (Cons i r1)
  have ih: "rx_run (r1 @ r2) k =
      (\<lambda>s. map_option (\<lambda>(w1, w2, a). (w1 @ w2, a)) (rx_run r1 (rx_run r2 k) s))"
    using Cons.IH by blast
  show ?case
  proof (cases i)
    case (Lit t)
    then show ?thesis by (simp add: ih option.map_comp comp_def split_def)
  next
    case (One c)
    then show ?thesis
      by (simp add: ih option.map_comp comp_def split_def split: list.splits)
  next
    case (Star c)
    then show ?thesis
      by (simp add: ih greedy_map option.map_comp comp_def split_def)
  next
    case (Plus c)
    then show ?thesis
      by (simp add: ih greedy_map option.map_comp comp_def split_def split: list.splits)
  next
    case (Lazy c)
    then show ?thesis
      by (simp add: ih lazy_map option.map_comp comp_def split_def)
  qed
qed

lemma rx_match_here_sound:
  assumes "rx_match_here r s = Some (ws, post)"
  shows "s = concat ws @ post \<and> list_all2 piece_ok r ws
     \<and> rx_match_here r (concat ws @ post) = Some (ws, post)"
proof -
  from rx_run_sound [of r Some s ws post] assms
  have e: "s = concat ws @ post" and ok: "list_all2 piece_ok r ws"
    by (auto simp: rx_match_here_def)
  from assms e have "rx_match_here r (concat ws @ post) = Some (ws, post)" by simp
  with e ok show ?thesis by simp
qed

lemma rx_match_here_complete:
  "list_all2 piece_ok r ws \<Longrightarrow> rx_match_here r (concat ws @ rest) \<noteq> None"
  unfolding rx_match_here_def by (rule rx_run_complete) simp_all

lemma rx_search_sound:
  "rx_search r s = Some (pre, ws, post) \<Longrightarrow>
     s = pre @ concat ws @ post \<and> list_all2 piece_ok r ws
     \<and> rx_match_here r (concat ws @ post) = Some (ws, post)"
proof (induction s arbitrary: pre)
  case Nil
  then have m: "rx_match_here r [] = Some (ws, post)" and "pre = []"
    by (auto split: option.splits)
  with rx_match_here_sound [OF m] show ?case by (metis append_Nil)
next
  case (Cons x xs)
  show ?case
  proof (cases "rx_match_here r (x # xs)")
    case (Some m)
    with Cons.prems have m: "rx_match_here r (x # xs) = Some (ws, post)" and "pre = []"
      by (auto split: prod.splits)
    with rx_match_here_sound [OF m] show ?thesis by (metis append_Nil)
  next
    case None
    with Cons.prems obtain p where "rx_search r xs = Some (p, ws, post)" "pre = x # p"
      by auto
    with Cons.IH [of p] show ?thesis by auto
  qed
qed

lemma rx_search_first:
  "rx_search r s = Some (p1 @ p2, ws, post) \<Longrightarrow> p2 \<noteq> [] \<Longrightarrow>
     rx_match_here r (p2 @ concat ws @ post) = None"
proof (induction s arbitrary: p1)
  case Nil
  then show ?case by (auto split: option.splits)
next
  case (Cons x xs)
  show ?case
  proof (cases "rx_match_here r (x # xs)")
    case (Some m)
    with Cons.prems show ?thesis by (auto split: prod.splits)
  next
    case None
    with Cons.prems obtain p where s: "rx_search r xs = Some (p, ws, post)"
      and p: "p1 @ p2 = x # p"
      by auto
    show ?thesis
    proof (cases p1)
      case Nil
      from rx_search_sound [OF s] have "xs = p @ concat ws @ post" by simp
      with Nil p None show ?thesis by simp
    next
      case (Cons y ys)
      with p have "p = ys @ p2" by simp
      with s Cons.IH [of ys] Cons.prems(2) show ?thesis by simp
    qed
  qed
qed

lemma rx_search_intro:
  "rx_match_here r s = Some (ws, post) \<Longrightarrow>
   (\<And>p1 p2. pre = p1 @ p2 \<Longrightarrow> p2 \<noteq> [] \<Longrightarrow> rx_match_here r (p2 @ s) = None) \<Longrightarrow>
   rx_search r (pre @ s) = Some (pre, ws, post)"
proof (induction pre)
  case Nil
  then show ?case by (cases s) auto
next
  case (Cons x pre)
  have "rx_match_here r (x # pre @ s) = None"
    using Cons.prems(2) [of "[]" "x # pre"] by simp
  moreover have "rx_search r (pre @ s) = Some (pre, ws, post)"
  proof (rule Cons.IH [OF Cons.prems(1)])
    fix p1 p2 assume "pre = p1 @ p2" "p2 \<noteq> []"
    then show "rx_match_here r (p2 @ s) = None"
      using Cons.prems(2) [of "x # p1" p2] by simp
  qed
  ultimately show ?case by simp
qed

text \<open>A match of an expression with a non-greedy piece in the middle.\<close>

lemma lazy_split_match:
  assumes "rx_match_here (r1 @ Lazy c # r2) s = Some (ws, post)"
  shows "\<exists>ws1 L ws2. ws = ws1 @ L # ws2 \<and> list_all2 piece_ok r1 ws1 \<and> list_all2 piece_ok r2 ws2
     \<and> s = concat ws1 @ L @ concat ws2 @ post
     \<and> (\<forall>l1 l2. L = l1 @ l2 \<longrightarrow> l2 \<noteq> [] \<longrightarrow> rx_run r2 Some (l2 @ concat ws2 @ post) = None)"
proof -
  let ?K = "rx_run (Lazy c # r2) Some"
  from assms obtain ws1 wsr where 1: "rx_run r1 ?K s = Some (ws1, wsr, post)"
    and ws: "ws = ws1 @ wsr"
    by (auto simp: rx_match_here_def rx_run_append)
  from rx_run_sound [OF 1] obtain rest1 where s1: "s = concat ws1 @ rest1"
    and ok1: "list_all2 piece_ok r1 ws1" and k: "?K rest1 = Some (wsr, post)"
    by auto
  from k obtain L ws2 where lz: "lazy c (rx_run r2 Some) rest1 = Some (L, ws2, post)"
    and wsr: "wsr = L # ws2"
    by auto
  from lazy_sound [OF lz] obtain rest2 where r1: "rest1 = L @ rest2"
    and r2: "rx_run r2 Some rest2 = Some (ws2, post)"
    by auto
  from rx_run_sound [OF r2] have rest2: "rest2 = concat ws2 @ post"
    and ok2: "list_all2 piece_ok r2 ws2"
    by auto
  have "rx_run r2 Some (l2 @ concat ws2 @ post) = None" if "L = l1 @ l2" "l2 \<noteq> []" for l1 l2
    using lazy_minimal [of c "rx_run r2 Some" rest1 l1 l2 "(ws2, post)"] lz that r1 rest2
    by simp
  with ws wsr ok1 ok2 s1 r1 rest2 show ?thesis by auto
qed

text \<open>Text cut at the character \<open><\<close>.\<close>

lemma free_split_unique:
  assumes "u @ CHR ''<'' # x = u' @ CHR ''<'' # x'"
    and "CHR ''<'' \<notin> set u" and "CHR ''<'' \<notin> set u'"
  shows "u = u' \<and> x = x'"
proof -
  have tw: "takeWhile (\<lambda>a. a \<noteq> CHR ''<'') (v @ CHR ''<'' # y) = v"
    if "CHR ''<'' \<notin> set v" for v y
    using that by (induction v) auto
  have "u = takeWhile (\<lambda>a. a \<noteq> CHR ''<'') (u @ CHR ''<'' # x)"
    using tw [OF assms(2)] by simp
  also have "\<dots> = u'"
    unfolding assms(1) using tw [OF assms(3)] by simp
  finally have "u = u'" .
  with assms(1) show ?thesis by simp
qed

lemma tag_first:
  assumes "(CHR ''<'' # t) @ X = Y @ CHR ''<'' # z"
    and "CHR ''<'' \<notin> set t" and "Y \<noteq> []"
  shows "\<exists>Y'. Y = (CHR ''<'' # t) @ Y' \<and> X = Y' @ CHR ''<'' # z"
proof -
  from assms(1) obtain us where
    "(CHR ''<'' # t = Y @ us \<and> us @ X = CHR ''<'' # z) \<or> ((CHR ''<'' # t) @ us = Y \<and> X = us @ CHR ''<'' # z)"
    unfolding append_eq_append_conv2 by blast
  then show ?thesis
  proof
    assume a: "CHR ''<'' # t = Y @ us \<and> us @ X = CHR ''<'' # z"
    show ?thesis
    proof (cases us)
      case Nil
      with a show ?thesis by auto
    next
      case (Cons b bs)
      with a have b: "b = CHR ''<''" by simp
      obtain y ys where Y: "Y = y # ys" using assms(3) by (cases Y) auto
      from a Y Cons have "t = ys @ b # bs" by simp
      then have "b \<in> set t" by simp
      with b assms(2) show ?thesis by simp
    qed
  next
    assume "(CHR ''<'' # t) @ us = Y \<and> X = us @ CHR ''<'' # z"
    then show ?thesis by auto
  qed
qed

lemma free_in_front:
  assumes "w @ r = Y @ CHR ''<'' # z" and "CHR ''<'' \<notin> set w"
  shows "\<exists>Y'. Y = w @ Y' \<and> r = Y' @ CHR ''<'' # z"
proof -
  from assms(1) have "\<exists>us. (w = Y @ us \<and> us @ r = CHR ''<'' # z) \<or> (w @ us = Y \<and> r = us @ CHR ''<'' # z)"
    by (rule append_eq_append_conv2 [THEN iffD1])
  then obtain us where
    d: "(w = Y @ us \<and> us @ r = CHR ''<'' # z) \<or> (w @ us = Y \<and> r = us @ CHR ''<'' # z)"
    by blast
  then show ?thesis
  proof
    assume a: "w = Y @ us \<and> us @ r = CHR ''<'' # z"
    show ?thesis
    proof (cases us)
      case Nil
      with a show ?thesis by simp
    next
      case (Cons b bs)
      with a have "b = CHR ''<''" by simp
      with a Cons assms(2) show ?thesis by simp
    qed
  next
    assume "w @ us = Y \<and> r = us @ CHR ''<'' # z"
    then show ?thesis by blast
  qed
qed

lemma space_shift:
  "G @ x = w @ G @ y \<Longrightarrow> w \<noteq> [] \<Longrightarrow> list_all (cmatch Space) w \<Longrightarrow> list_all (cmatch Space) G"
proof (induction "length G" arbitrary: G x rule: less_induct)
  case less
  from less.prems(1) have "\<exists>us. (G = w @ us \<and> us @ x = G @ y) \<or> (G @ us = w \<and> x = us @ G @ y)"
    by (rule append_eq_append_conv2 [THEN iffD1])
  then obtain us where
    d: "(G = w @ us \<and> us @ x = G @ y) \<or> (G @ us = w \<and> x = us @ G @ y)"
    by blast
  then show ?case
  proof
    assume a: "G = w @ us \<and> us @ x = G @ y"
    then have "us @ x = w @ us @ y" by simp
    moreover have "length us < length G" using a less.prems(2) by simp
    ultimately have "list_all (cmatch Space) us"
      using less.hyps [of us x] less.prems(2,3) by blast
    with a less.prems(3) show ?thesis by simp
  next
    assume "G @ us = w \<and> x = us @ G @ y"
    with less.prems(3) show ?thesis by auto
  qed
qed


lemma space_free: "list_all (cmatch Space) w \<Longrightarrow> CHR ''<'' \<notin> set w"
  by (induction w) (auto simp: is_space_def)

text \<open>
  Two ways of reading \<open>white space, literal, white space\<close> in front of a \<open><\<close> take
  the same text.
\<close>

lemma block_unique:
  assumes eq: "a1 @ G @ a2 @ CHR ''<'' # r = b1 @ G @ b2 @ CHR ''<'' # r'"
    and sp: "list_all (cmatch Space) a1" "list_all (cmatch Space) a2"
      "list_all (cmatch Space) b1" "list_all (cmatch Space) b2"
  shows "a1 @ G @ a2 = b1 @ G @ b2 \<and> r = r'"
proof -
  have all_space: "a1 @ G @ a2 = b1 @ G @ b2 \<and> r = r'" if "list_all (cmatch Space) G"
  proof -
    have "CHR ''<'' \<notin> set (a1 @ G @ a2)" "CHR ''<'' \<notin> set (b1 @ G @ b2)"
      using sp that by (simp_all add: space_free)
    moreover have "(a1 @ G @ a2) @ CHR ''<'' # r = (b1 @ G @ b2) @ CHR ''<'' # r'"
      using eq by simp
    ultimately show ?thesis by (rule free_split_unique [rotated])
  qed
  from eq have "\<exists>us. (a1 = b1 @ us \<and> us @ G @ a2 @ CHR ''<'' # r = G @ b2 @ CHR ''<'' # r')
      \<or> (a1 @ us = b1 \<and> G @ a2 @ CHR ''<'' # r = us @ G @ b2 @ CHR ''<'' # r')"
    by (rule append_eq_append_conv2 [THEN iffD1])
  then obtain us where
    d: "(a1 = b1 @ us \<and> us @ G @ a2 @ CHR ''<'' # r = G @ b2 @ CHR ''<'' # r')
      \<or> (a1 @ us = b1 \<and> G @ a2 @ CHR ''<'' # r = us @ G @ b2 @ CHR ''<'' # r')"
    by blast
  show ?thesis
  proof (cases "us = []")
    case True
    with d have ab: "a1 = b1" and "a2 @ CHR ''<'' # r = b2 @ CHR ''<'' # r'" by auto
    from free_split_unique [OF this(2)] sp have "a2 = b2 \<and> r = r'"
      by (simp add: space_free)
    with ab show ?thesis by simp
  next
    case False
    from d show ?thesis
    proof
      assume a: "a1 = b1 @ us \<and> us @ G @ a2 @ CHR ''<'' # r = G @ b2 @ CHR ''<'' # r'"
      then have "list_all (cmatch Space) us" using sp(1) by simp
      moreover from a have "G @ (b2 @ CHR ''<'' # r') = us @ G @ (a2 @ CHR ''<'' # r)" by simp
      ultimately have "list_all (cmatch Space) G"
        using False by (rule space_shift [rotated 2])
      then show ?thesis by (rule all_space)
    next
      assume a: "a1 @ us = b1 \<and> G @ a2 @ CHR ''<'' # r = us @ G @ b2 @ CHR ''<'' # r'"
      then have "list_all (cmatch Space) us" using sp(3) by auto
      moreover from a have "G @ (a2 @ CHR ''<'' # r) = us @ G @ (b2 @ CHR ''<'' # r')" by simp
      ultimately have "list_all (cmatch Space) G"
        using False by (rule space_shift [rotated 2])
      then show ?thesis by (rule all_space)
    qed
  qed
qed

text \<open>
  A block \<open>tag, white space, literal, white space, closing tag\<close> that starts before a
  block of the same shape ends no later than that one.
\<close>

lemma block_bounded:
  assumes eq: "(CHR ''<'' # s1) @ c1 @ G @ c2 @ (CHR ''<'' # s2) @ restN
      = p @ (CHR ''<'' # s1) @ a1 @ G @ a2 @ (CHR ''<'' # s2) @ X"
    and p: "p \<noteq> []"
    and s1: "CHR ''<'' \<notin> set s1" and s2: "CHR ''<'' \<notin> set s2"
    and c1: "CHR ''<'' \<notin> set c1" and c2: "CHR ''<'' \<notin> set c2"
    and ntag: "\<And>W. \<not> prefix (CHR ''<'' # s2) ((CHR ''<'' # s1) @ W)"
  shows "\<exists>Y. p @ (CHR ''<'' # s1) @ a1 @ G @ a2 @ (CHR ''<'' # s2)
      = (CHR ''<'' # s1) @ c1 @ G @ c2 @ (CHR ''<'' # s2) @ Y"
proof -
  let ?t1 = "CHR ''<'' # s1" and ?t2 = "CHR ''<'' # s2"
  define Z where "Z = s1 @ a1 @ G @ a2 @ ?t2 @ X"
  have Z: "?t1 @ a1 @ G @ a2 @ ?t2 @ X = CHR ''<'' # Z" by (simp add: Z_def)
  have e0: "?t1 @ (c1 @ G @ c2 @ ?t2 @ restN) = p @ CHR ''<'' # Z"
    using eq by (simp add: Z_def)
  from tag_first [OF e0 s1 p] obtain Y1 where p1: "p = ?t1 @ Y1"
    and e1: "c1 @ G @ c2 @ ?t2 @ restN = Y1 @ CHR ''<'' # Z"
    by blast
  from free_in_front [OF e1 c1] obtain Y2 where y1: "Y1 = c1 @ Y2"
    and e2: "G @ c2 @ ?t2 @ restN = Y2 @ CHR ''<'' # Z"
    by blast
  have closing: "\<exists>Y'. us = c2 @ ?t2 @ Y'"
    if e3: "c2 @ ?t2 @ restN = us @ CHR ''<'' # Z" for us
  proof -
    from free_in_front [OF e3 c2] obtain Y4 where u: "us = c2 @ Y4"
      and e4: "?t2 @ restN = Y4 @ CHR ''<'' # Z"
      by blast
    have "Y4 \<noteq> []"
    proof
      assume "Y4 = []"
      with e4 have "?t2 @ restN = ?t1 @ (a1 @ G @ a2 @ ?t2 @ X)" by (simp add: Z_def)
      then have "prefix ?t2 (?t1 @ (a1 @ G @ a2 @ ?t2 @ X))" by (metis prefixI)
      with ntag show False by blast
    qed
    from tag_first [OF e4 s2 this] obtain Y5 where "Y4 = ?t2 @ Y5" by blast
    with u show ?thesis by simp
  qed
  from e2 have "\<exists>us. (G = Y2 @ us \<and> us @ c2 @ ?t2 @ restN = CHR ''<'' # Z)
      \<or> (G @ us = Y2 \<and> c2 @ ?t2 @ restN = us @ CHR ''<'' # Z)"
    by (rule append_eq_append_conv2 [THEN iffD1])
  then obtain us where
    d: "(G = Y2 @ us \<and> us @ c2 @ ?t2 @ restN = CHR ''<'' # Z)
      \<or> (G @ us = Y2 \<and> c2 @ ?t2 @ restN = us @ CHR ''<'' # Z)"
    by blast
  then show ?thesis
  proof
    assume b: "G @ us = Y2 \<and> c2 @ ?t2 @ restN = us @ CHR ''<'' # Z"
    with closing obtain Y' where "us = c2 @ ?t2 @ Y'" by blast
    with b p1 y1 have "p @ ?t1 @ a1 @ G @ a2 @ ?t2
        = ?t1 @ c1 @ G @ c2 @ ?t2 @ (Y' @ ?t1 @ a1 @ G @ a2 @ ?t2)" by auto
    then show ?thesis by (rule exI)
  next
    assume a: "G = Y2 @ us \<and> us @ c2 @ ?t2 @ restN = CHR ''<'' # Z"
    then have G: "G = Y2 @ us" and e5: "us @ (c2 @ ?t2 @ restN) = (?t1 @ a1 @ G) @ (a2 @ ?t2 @ X)"
      by (simp_all add: Z_def)
    from e5 have "\<exists>vs. (us = (?t1 @ a1 @ G) @ vs \<and> vs @ c2 @ ?t2 @ restN = a2 @ ?t2 @ X)
        \<or> (us @ vs = ?t1 @ a1 @ G \<and> c2 @ ?t2 @ restN = vs @ a2 @ ?t2 @ X)"
      by (rule append_eq_append_conv2 [THEN iffD1])
    then obtain vs where
      d2: "(us = (?t1 @ a1 @ G) @ vs \<and> vs @ c2 @ ?t2 @ restN = a2 @ ?t2 @ X)
        \<or> (us @ vs = ?t1 @ a1 @ G \<and> c2 @ ?t2 @ restN = vs @ a2 @ ?t2 @ X)"
      by blast
    have "length us \<le> length G" using G by simp
    then have "us \<noteq> (?t1 @ a1 @ G) @ vs" by auto
    with d2 have uv: "us @ vs = ?t1 @ a1 @ G"
      and e6: "c2 @ ?t2 @ restN = (vs @ a2) @ CHR ''<'' # (s2 @ X)"
      by simp_all
    from free_in_front [OF e6 c2] obtain Y6 where v: "vs @ a2 = c2 @ Y6"
      and e7: "?t2 @ restN = Y6 @ CHR ''<'' # (s2 @ X)"
      by blast
    have "p @ ?t1 @ a1 @ G @ a2 @ ?t2 = ?t1 @ c1 @ Y2 @ (us @ vs) @ a2 @ ?t2"
      using p1 y1 uv by simp
    also have "\<dots> = ?t1 @ c1 @ G @ (vs @ a2) @ ?t2"
      using G by simp
    also have "\<dots> = ?t1 @ c1 @ G @ c2 @ Y6 @ ?t2"
      using v by simp
    finally have tot: "p @ ?t1 @ a1 @ G @ a2 @ ?t2 = ?t1 @ c1 @ G @ c2 @ Y6 @ ?t2" .
    show ?thesis
    proof (cases "Y6 = []")
      case True
      with tot have "p @ ?t1 @ a1 @ G @ a2 @ ?t2 = ?t1 @ c1 @ G @ c2 @ ?t2 @ []" by simp
      then show ?thesis by (rule exI)
    next
      case False
      from tag_first [OF e7 s2 False] obtain Y7 where "Y6 = ?t2 @ Y7" by blast
      with tot have "p @ ?t1 @ a1 @ G @ a2 @ ?t2 = ?t1 @ c1 @ G @ c2 @ ?t2 @ (Y7 @ ?t2)" by simp
      then show ?thesis by (rule exI)
    qed
  qed
qed

section \<open>The project version element\<close>

lemma any_all: "list_all (cmatch AnyChar) w"
  by (induction w) auto

lemma notlt_free: "list_all (cmatch (NoneOf ''<'')) w \<longleftrightarrow> CHR ''<'' \<notin> set w"
  by (induction w) auto

lemma groupIdPart_pieces:
  "list_all2 piece_ok (groupIdPart c) ws \<longleftrightarrow>
     (\<exists>a1 a2. ws = [''<groupId>'', a1, groupId c, a2, ''</groupId>'']
        \<and> list_all (cmatch Space) a1 \<and> list_all (cmatch Space) a2)"
  unfolding groupIdPart_def by (auto simp: list_all2_Cons1)

lemma artifactIdPart_pieces:
  "list_all2 piece_ok (artifactIdPart c) ws \<longleftrightarrow>
     (\<exists>a3 a4 a5 g. ws = [''<artifactId>'', a3, artifactId c, a4, ''</artifactId>'', a5,
                          ''<version>'', g, ''</version>'']
        \<and> list_all (cmatch Space) a3 \<and> list_all (cmatch Space) a4
        \<and> list_all (cmatch Space) a5 \<and> g \<noteq> [] \<and> CHR ''<'' \<notin> set g)"
  unfolding artifactIdPart_def by (auto simp: list_all2_Cons1 notlt_free)

text \<open>
  Writing another version into the element the coordinate expression found leaves the
  place of the match where it was: the expression finds the same element again, now
  with the new version.
\<close>

lemma project_rematch:
  assumes v: "v \<noteq> []" "CHR ''<'' \<notin> set v"
    and old: "rx_search (projectPattern c) pom = Some (pre, ws, post)"
  shows "\<exists>ws'. rx_search (projectPattern c)
            (pre @ group_text (0, 13) ws @ v @ ''</version>'' @ post) = Some (pre, ws', post)
          \<and> group_text (13, 14) ws' = v"
proof -
  let ?R = "projectPattern c" and ?P1 = "groupIdPart c" and ?P2 = "artifactIdPart c"
  let ?G = "groupId c" and ?A = "artifactId c"
  have R: "?R = ?P1 @ Lazy AnyChar # ?P2" by (simp add: projectPattern_def)
  from rx_search_sound [OF old]
  have mh: "rx_match_here (?P1 @ Lazy AnyChar # ?P2) (concat ws @ post) = Some (ws, post)"
    unfolding R by simp
  from lazy_split_match [OF mh] obtain ws1 Lo ws2 where
    ws: "ws = ws1 @ Lo # ws2" and ok1: "list_all2 piece_ok ?P1 ws1"
    and ok2: "list_all2 piece_ok ?P2 ws2"
    and min_old: "\<And>l1 l2. Lo = l1 @ l2 \<Longrightarrow> l2 \<noteq> [] \<Longrightarrow>
                    rx_run ?P2 Some (l2 @ concat ws2 @ post) = None"
    by blast
  from ok1 obtain a1 a2 where
    ws1: "ws1 = [''<groupId>'', a1, ?G, a2, ''</groupId>'']"
    and sp1: "list_all (cmatch Space) a1" "list_all (cmatch Space) a2"
    unfolding groupIdPart_pieces by blast
  from ok2 obtain a3 a4 a5 g2 where
    ws2: "ws2 = [''<artifactId>'', a3, ?A, a4, ''</artifactId>'', a5, ''<version>'', g2, ''</version>'']"
    and sp2: "list_all (cmatch Space) a3" "list_all (cmatch Space) a4" "list_all (cmatch Space) a5"
    and g2: "g2 \<noteq> []" "CHR ''<'' \<notin> set g2"
    unfolding artifactIdPart_pieces by blast
  define H where "H = ''<groupId>'' @ a1 @ ?G @ a2 @ ''</groupId>''"
  define B0 where "B0 = ''<artifactId>'' @ a3 @ ?A @ a4 @ ''</artifactId>''"
  define B where "B = B0 @ a5 @ ''<version>''"
  define n2 where
    "n2 = [''<artifactId>'', a3, ?A, a4, ''</artifactId>'', a5, ''<version>'', v, ''</version>'']"
  have a5free: "CHR ''<'' \<notin> set a5"
    using sp2 by (simp add: space_free)
  have cw1: "concat ws1 = H" by (simp add: ws1 H_def)
  have cw2: "concat ws2 = B @ g2 @ ''</version>''" by (simp add: ws2 B_def B0_def)
  have cn2: "concat n2 = B @ v @ ''</version>''" by (simp add: n2_def B_def B0_def)
  have g1: "group_text (0, 13) ws = H @ Lo @ B"
    by (simp add: group_text_def ws ws1 ws2 H_def B_def B0_def)
  have okn2: "list_all2 piece_ok ?P2 n2"
    unfolding artifactIdPart_pieces n2_def using sp2 v by simp
  let ?Tn = "H @ Lo @ B @ v @ ''</version>'' @ post"
  have "list_all2 piece_ok (?P1 @ Lazy AnyChar # ?P2) (ws1 @ Lo # n2)"
    using ok1 okn2 by (intro list_all2_appendI) (simp_all add: any_all)
  from rx_match_here_complete [OF this, of post]
  obtain ws' post' where mn: "rx_match_here (?P1 @ Lazy AnyChar # ?P2) ?Tn = Some (ws', post')"
    by (auto simp: cw1 cn2)
  from lazy_split_match [OF mn] obtain m1 Ln m2 where
    ws': "ws' = m1 @ Ln # m2" and okm1: "list_all2 piece_ok ?P1 m1"
    and okm2: "list_all2 piece_ok ?P2 m2"
    and Tn: "?Tn = concat m1 @ Ln @ concat m2 @ post'"
    and min_new: "\<And>l1 l2. Ln = l1 @ l2 \<Longrightarrow> l2 \<noteq> [] \<Longrightarrow>
                    rx_run ?P2 Some (l2 @ concat m2 @ post') = None"
    by blast
  from okm1 obtain b1 b2 where
    m1: "m1 = [''<groupId>'', b1, ?G, b2, ''</groupId>'']"
    and spm1: "list_all (cmatch Space) b1" "list_all (cmatch Space) b2"
    unfolding groupIdPart_pieces by blast
  from okm2 obtain b3 b4 b5 V where
    m2: "m2 = [''<artifactId>'', b3, ?A, b4, ''</artifactId>'', b5, ''<version>'', V, ''</version>'']"
    and spm2: "list_all (cmatch Space) b3" "list_all (cmatch Space) b4" "list_all (cmatch Space) b5"
    and V: "V \<noteq> []" "CHR ''<'' \<notin> set V"
    unfolding artifactIdPart_pieces by blast
  define C0 where "C0 = ''<artifactId>'' @ b3 @ ?A @ b4 @ ''</artifactId>''"
  have b3free: "CHR ''<'' \<notin> set b3" and b4free: "CHR ''<'' \<notin> set b4"
    and b5free: "CHR ''<'' \<notin> set b5"
    using spm2 by (simp_all add: space_free)
  have cm2: "concat m2 = C0 @ b5 @ ''<version>'' @ V @ ''</version>''"
    by (simp add: m2 C0_def)
  \<comment> \<open>the group id part ends at the same place\<close>
  have "a1 @ ?G @ a2 @ CHR ''<'' # (''/groupId>'' @ Lo @ B @ v @ ''</version>'' @ post)
      = b1 @ ?G @ b2 @ CHR ''<'' # (''/groupId>'' @ Ln @ concat m2 @ post')"
    using Tn by (simp add: H_def m1)
  from block_unique [OF this sp1 spm1]
  have rest: "Lo @ B @ v @ ''</version>'' @ post = Ln @ concat m2 @ post'"
    by simp
  \<comment> \<open>the non-greedy piece is the same\<close>
  have Lsame: "Lo = Ln \<and> B @ v @ ''</version>'' @ post = concat m2 @ post'"
  proof -
    from rest have "\<exists>us. (Lo = Ln @ us \<and> us @ B @ v @ ''</version>'' @ post = concat m2 @ post')
        \<or> (Lo @ us = Ln \<and> B @ v @ ''</version>'' @ post = us @ concat m2 @ post')"
      by (rule append_eq_append_conv2 [THEN iffD1])
    then obtain us where
      d: "(Lo = Ln @ us \<and> us @ B @ v @ ''</version>'' @ post = concat m2 @ post')
        \<or> (Lo @ us = Ln \<and> B @ v @ ''</version>'' @ post = us @ concat m2 @ post')"
      by blast
    have "us = []"
    proof (rule ccontr)
      assume ne: "us \<noteq> []"
      from d show False
      proof
        assume a: "Lo = Ln @ us \<and> us @ B @ v @ ''</version>'' @ post = concat m2 @ post'"
        then have a1: "Lo = Ln @ us"
          and a2: "concat m2 @ post' = us @ B @ v @ ''</version>'' @ post"
          by simp_all
        have none: "rx_run ?P2 Some (us @ concat ws2 @ post) = None"
          by (rule min_old [OF a1 ne])
        have e: "(CHR ''<'' # ''artifactId>'') @ b3 @ ?A @ b4 @ (CHR ''<'' # ''/artifactId>'')
              @ (b5 @ ''<version>'' @ V @ ''</version>'' @ post')
            = us @ (CHR ''<'' # ''artifactId>'') @ a3 @ ?A @ a4 @ (CHR ''<'' # ''/artifactId>'')
              @ (a5 @ ''<version>'' @ v @ ''</version>'' @ post)"
          using a2 by (simp add: m2 B_def B0_def)
        have "\<exists>Y. us @ (CHR ''<'' # ''artifactId>'') @ a3 @ ?A @ a4 @ (CHR ''<'' # ''/artifactId>'')
            = (CHR ''<'' # ''artifactId>'') @ b3 @ ?A @ b4 @ (CHR ''<'' # ''/artifactId>'') @ Y"
          by (rule block_bounded [OF e ne _ _ b3free b4free]) simp_all
        then obtain Y where Y: "us @ B0 = C0 @ Y"
          by (auto simp: B0_def C0_def)
        have "C0 @ (b5 @ ''<version>'' @ V @ ''</version>'' @ post')
            = (us @ B0) @ (a5 @ ''<version>'' @ v @ ''</version>'' @ post)"
          using a2 by (simp add: cm2 B_def)
        then have "b5 @ (''<version>'' @ V @ ''</version>'' @ post')
            = (Y @ a5) @ CHR ''<'' # (''version>'' @ v @ ''</version>'' @ post)"
          unfolding Y by simp
        from free_in_front [OF this b5free] obtain Y3 where Y3: "Y @ a5 = b5 @ Y3"
          and e4: "''<version>'' @ V @ ''</version>'' @ post'
              = Y3 @ CHR ''<'' # (''version>'' @ v @ ''</version>'' @ post)"
          by blast
        have "\<exists>x2 Z. list_all2 piece_ok ?P2 x2 \<and> us @ concat ws2 @ post = concat x2 @ Z"
        proof (cases "Y3 = []")
          case True
          let ?x2 = "[''<artifactId>'', b3, ?A, b4, ''</artifactId>'', b5, ''<version>'', g2, ''</version>'']"
          have "list_all2 piece_ok ?P2 ?x2"
            unfolding artifactIdPart_pieces using spm2 g2 by simp
          moreover have "us @ concat ws2 @ post = (us @ B0) @ a5 @ ''<version>'' @ g2 @ ''</version>'' @ post"
            by (simp add: cw2 B_def)
          then have "us @ concat ws2 @ post = C0 @ (Y @ a5) @ ''<version>'' @ g2 @ ''</version>'' @ post"
            unfolding Y by simp
          then have "us @ concat ws2 @ post = concat ?x2 @ post"
            unfolding Y3 True by (simp add: C0_def)
          ultimately show ?thesis by blast
        next
          case False
          have e4': "(CHR ''<'' # ''version>'') @ (V @ ''</version>'' @ post')
              = Y3 @ CHR ''<'' # (''version>'' @ v @ ''</version>'' @ post)"
            using e4 by simp
          have "CHR ''<'' \<notin> set ''version>''" by simp
          from tag_first [OF e4' this False] obtain Y4 where Y4: "Y3 = ''<version>'' @ Y4"
            and e5: "V @ (''</version>'' @ post') = Y4 @ CHR ''<'' # (''version>'' @ v @ ''</version>'' @ post)"
            by auto
          from free_in_front [OF e5 V(2)] obtain Y5 where Y5: "Y4 = V @ Y5"
            and e6: "''</version>'' @ post' = Y5 @ CHR ''<'' # (''version>'' @ v @ ''</version>'' @ post)"
            by blast
          have ne5: "Y5 \<noteq> []" using e6 by auto
          have e6': "(CHR ''<'' # ''/version>'') @ post'
              = Y5 @ CHR ''<'' # (''version>'' @ v @ ''</version>'' @ post)"
            using e6 by simp
          have "CHR ''<'' \<notin> set ''/version>''" by simp
          from tag_first [OF e6' this ne5] obtain Y6 where Y6: "Y5 = ''</version>'' @ Y6"
            by auto
          have "us @ concat ws2 @ post = (us @ B0) @ a5 @ ''<version>'' @ g2 @ ''</version>'' @ post"
            by (simp add: cw2 B_def)
          then have "us @ concat ws2 @ post = C0 @ (Y @ a5) @ ''<version>'' @ g2 @ ''</version>'' @ post"
            unfolding Y by simp
          then have "us @ concat ws2 @ post
              = concat m2 @ (Y6 @ ''<version>'' @ g2 @ ''</version>'' @ post)"
            unfolding Y3 Y4 Y5 Y6 cm2 by simp
          with okm2 show ?thesis by blast
        qed
        then obtain x2 Z where okx: "list_all2 piece_ok ?P2 x2"
          and ex: "us @ concat ws2 @ post = concat x2 @ Z"
          by blast
        have "rx_run ?P2 Some (concat x2 @ Z) \<noteq> None"
          by (rule rx_run_complete [OF okx]) simp
        with none ex show False by metis
      next
        assume a: "Lo @ us = Ln \<and> B @ v @ ''</version>'' @ post = us @ concat m2 @ post'"
        then have a1: "Ln = Lo @ us"
          and a2: "B @ v @ ''</version>'' @ post = us @ concat m2 @ post'"
          by simp_all
        have "rx_run ?P2 Some (concat n2 @ post) \<noteq> None"
          by (rule rx_run_complete [OF okn2]) simp
        moreover have "concat n2 @ post = us @ concat m2 @ post'"
          unfolding cn2 using a2 by simp
        moreover have "rx_run ?P2 Some (us @ concat m2 @ post') = None"
          by (rule min_new [OF a1 ne])
        ultimately show False by metis
      qed
    qed
    with d show ?thesis by auto
  qed
  \<comment> \<open>so the version piece is the new version\<close>
  have "a3 @ ?A @ a4 @ CHR ''<'' # (''/artifactId>'' @ a5 @ ''<version>'' @ v @ ''</version>'' @ post)
      = b3 @ ?A @ b4 @ CHR ''<'' # (''/artifactId>'' @ b5 @ ''<version>'' @ V @ ''</version>'' @ post')"
    using Lsame by (simp add: B_def B0_def m2)
  from block_unique [OF this sp2(1,2) spm2(1,2)]
  have "a5 @ CHR ''<'' # (''version>'' @ v @ ''</version>'' @ post)
      = b5 @ CHR ''<'' # (''version>'' @ V @ ''</version>'' @ post')"
    by simp
  from free_split_unique [OF this a5free b5free]
  have "v @ CHR ''<'' # (''/version>'' @ post) = V @ CHR ''<'' # (''/version>'' @ post')"
    by simp
  from free_split_unique [OF this v(2) V(2)]
  have vV: "V = v" and pp: "post' = post" by simp_all
  have grp: "group_text (13, 14) ws' = v"
    by (simp add: group_text_def ws' m1 m2 vV)
  \<comment> \<open>no match starts earlier\<close>
  have first: "rx_match_here ?R (p2 @ ?Tn) = None" if pre: "pre = p1 @ p2" and ne: "p2 \<noteq> []" for p1 p2
  proof (rule ccontr)
    assume "rx_match_here ?R (p2 @ ?Tn) \<noteq> None"
    then obtain wsx postx where mx: "rx_match_here ?R (p2 @ ?Tn) = Some (wsx, postx)"
      by auto
    from rx_match_here_sound [OF mx]
    have ex: "p2 @ ?Tn = concat wsx @ postx" and okx: "list_all2 piece_ok ?R wsx"
      by simp_all
    from okx obtain x1 Lx x2 where wsx: "wsx = x1 @ Lx # x2"
      and okx1: "list_all2 piece_ok ?P1 x1"
      unfolding R by (auto simp: list_all2_append1 list_all2_Cons1)
    from okx1 obtain c1 c2 where
      x1: "x1 = [''<groupId>'', c1, ?G, c2, ''</groupId>'']"
      and spx: "list_all (cmatch Space) c1" "list_all (cmatch Space) c2"
      unfolding groupIdPart_pieces by blast
    have c1free: "CHR ''<'' \<notin> set c1" and c2free: "CHR ''<'' \<notin> set c2"
      using spx by (simp_all add: space_free)
    have e: "(CHR ''<'' # ''groupId>'') @ c1 @ ?G @ c2 @ (CHR ''<'' # ''/groupId>'')
          @ (Lx @ concat x2 @ postx)
        = p2 @ (CHR ''<'' # ''groupId>'') @ a1 @ ?G @ a2 @ (CHR ''<'' # ''/groupId>'')
          @ (Lo @ B @ v @ ''</version>'' @ post)"
      using ex by (simp add: wsx x1 H_def)
    have "\<exists>Y. p2 @ (CHR ''<'' # ''groupId>'') @ a1 @ ?G @ a2 @ (CHR ''<'' # ''/groupId>'')
        = (CHR ''<'' # ''groupId>'') @ c1 @ ?G @ c2 @ (CHR ''<'' # ''/groupId>'') @ Y"
      by (rule block_bounded [OF e ne _ _ c1free c2free]) simp_all
    then obtain Y where Y: "p2 @ H = concat x1 @ Y"
      by (auto simp: H_def x1)
    have "list_all2 piece_ok (?P1 @ Lazy AnyChar # ?P2) (x1 @ (Y @ Lo) # ws2)"
      using okx1 ok2 by (intro list_all2_appendI) (simp_all add: any_all)
    from rx_match_here_complete [OF this, of post]
    have some: "rx_match_here ?R (concat x1 @ Y @ Lo @ concat ws2 @ post) \<noteq> None"
      unfolding R by simp
    have "p2 @ concat ws @ post = (p2 @ H) @ Lo @ concat ws2 @ post"
      by (simp add: ws cw1)
    then have "p2 @ concat ws @ post = concat x1 @ Y @ Lo @ concat ws2 @ post"
      unfolding Y by simp
    with some have "rx_match_here ?R (p2 @ concat ws @ post) \<noteq> None"
      by metis
    with rx_search_first [OF old [unfolded pre] ne] show False by simp
  qed
  have "rx_search ?R (pre @ ?Tn) = Some (pre, ws', post')"
    using mn first unfolding R [symmetric] by (rule rx_search_intro)
  with grp pp g1 show ?thesis by simp
qed

lemma get_substitution_plain:
  "CHR ''$'' \<notin> set v \<Longrightarrow>
     get_substitution m b a caps (v @ [CHR ''$'', d]) = v @ get_substitution m b a caps [CHR ''$'', d]"
proof (induction v)
  case Nil
  show ?case by simp
next
  case (Cons x v)
  then show ?case by (cases v) auto
qed

lemma get_substitution_1_3:
  assumes "CHR ''$'' \<notin> set v"
  shows "get_substitution m b a [x1, x2, x3] (CHR ''$'' # CHR ''1'' # v @ ''$3'') = x1 @ v @ x3"
proof -
  have 3: "get_substitution m b a [x1, x2, x3] ''$3'' = x3"
    by (simp add: is_digit_def digit_val_def)
  have "get_substitution m b a [x1, x2, x3] (CHR ''$'' # CHR ''1'' # v @ ''$3'')
      = x1 @ get_substitution m b a [x1, x2, x3] (v @ ''$3'')"
  proof (cases v)
    case Nil
    then show ?thesis by (simp add: is_digit_def digit_val_def)
  next
    case (Cons e t)
    then show ?thesis by (simp add: is_digit_def digit_val_def Let_def)
  qed
  with get_substitution_plain [OF assms, of m b a "[x1, x2, x3]" "CHR ''3''"] 3
  show ?thesis by simp
qed

lemma project_match_shape:
  assumes "rx_search (projectPattern c) pom = Some (pre, ws, post)"
  shows "\<exists>a1 a2 mid a3 a4 a5 old.
      group_text (0, 13) ws =
        ''<groupId>'' @ a1 @ groupId c @ a2 @ ''</groupId>'' @ mid
        @ ''<artifactId>'' @ a3 @ artifactId c @ a4 @ ''</artifactId>'' @ a5 @ ''<version>''
    \<and> group_text (13, 14) ws = old \<and> group_text (14, 15) ws = ''</version>''
    \<and> pom = pre @ group_text (0, 13) ws @ old @ ''</version>'' @ post
    \<and> list_all (cmatch Space) a1 \<and> list_all (cmatch Space) a2 \<and> list_all (cmatch Space) a3
    \<and> list_all (cmatch Space) a4 \<and> list_all (cmatch Space) a5
    \<and> old \<noteq> [] \<and> CHR ''<'' \<notin> set old"
proof -
  from rx_search_sound [OF assms]
  have pom: "pom = pre @ concat ws @ post"
    and ok: "list_all2 piece_ok (groupIdPart c @ Lazy AnyChar # artifactIdPart c) ws"
    by (simp_all add: projectPattern_def)
  from ok obtain ws1 L ws2 where ws: "ws = ws1 @ L # ws2"
    and ok1: "list_all2 piece_ok (groupIdPart c) ws1"
    and ok2: "list_all2 piece_ok (artifactIdPart c) ws2"
    by (auto simp: list_all2_append1 list_all2_Cons1)
  from ok1 obtain a1 a2 where
    ws1: "ws1 = [''<groupId>'', a1, groupId c, a2, ''</groupId>'']"
    and sp1: "list_all (cmatch Space) a1" "list_all (cmatch Space) a2"
    unfolding groupIdPart_pieces by blast
  from ok2 obtain a3 a4 a5 old where
    ws2: "ws2 = [''<artifactId>'', a3, artifactId c, a4, ''</artifactId>'', a5, ''<version>'', old, ''</version>'']"
    and sp2: "list_all (cmatch Space) a3" "list_all (cmatch Space) a4" "list_all (cmatch Space) a5"
    and old: "old \<noteq> []" "CHR ''<'' \<notin> set old"
    unfolding artifactIdPart_pieces by blast
  have "group_text (0, 13) ws =
        ''<groupId>'' @ a1 @ groupId c @ a2 @ ''</groupId>'' @ L
        @ ''<artifactId>'' @ a3 @ artifactId c @ a4 @ ''</artifactId>'' @ a5 @ ''<version>''"
    by (simp add: group_text_def ws ws1 ws2)
  moreover have "group_text (13, 14) ws = old" "group_text (14, 15) ws = ''</version>''"
    by (simp_all add: group_text_def ws ws1 ws2)
  moreover have "pom = pre @ group_text (0, 13) ws @ old @ ''</version>'' @ post"
    unfolding pom by (simp add: group_text_def ws ws1 ws2)
  ultimately show ?thesis using sp1 sp2 old by blast
qed

lemma updateProjectVersionInPom_result:
  assumes "rx_search (projectPattern c) pom = Some (pre, ws, post)"
    and "CHR ''$'' \<notin> set v"
  shows "updateProjectVersionInPom pom c v
     = Some (pre @ group_text (0, 13) ws @ v @ ''</version>'' @ post)"
proof -
  from project_match_shape [OF assms(1)]
  have "group_text (14, 15) ws = ''</version>''" by blast
  then show ?thesis
    using assms
    by (simp add: updateProjectVersionInPom_def rx_test_def rx_replace_def get_substitution_1_3
          del: get_substitution.simps)
qed
section \<open>Coordinate parsing: the claim\<close>

lemma split_on_not_Nil: "split_on c s \<noteq> []"
  by (induction s) (auto split: list.splits)

lemma split_on_unfold:
  "split_on c s =
     takeWhile (\<lambda>x. x \<noteq> c) s
     # (if c \<in> set s then split_on c (tl (dropWhile (\<lambda>x. x \<noteq> c) s)) else [])"
proof (induction s)
  case Nil
  show ?case by simp
next
  case (Cons x xs)
  show ?case
  proof (cases "x = c")
    case True
    then show ?thesis by simp
  next
    case False
    obtain p ps where sp: "split_on c xs = p # ps"
      using split_on_not_Nil [of c xs] by (cases "split_on c xs") auto
    with Cons False show ?thesis by (auto split: if_splits)
  qed
qed

text \<open>
  C9, as the code has it. \<open>split(':', 2)\<close> cuts the name at every colon and keeps the
  first two pieces: the artifact id is the text between the first colon and the second
  one (or the end of the name), not everything after the first colon. The result is
  null exactly when the name has no colon or one of these two pieces is empty.
\<close>

theorem parseMavenCoords_first_two_pieces:
  "parseMavenCoords s =
     (if CHR '':'' \<notin> set s then None
      else (let g = takeWhile (\<lambda>x. x \<noteq> CHR '':'') s;
                a = takeWhile (\<lambda>x. x \<noteq> CHR '':'') (tl (dropWhile (\<lambda>x. x \<noteq> CHR '':'') s))
            in if g = [] \<or> a = [] then None
               else Some \<lparr>groupId = g, artifactId = a\<rparr>))"
proof (cases "CHR '':'' \<in> set s")
  case False
  then show ?thesis by (simp add: parseMavenCoords_def)
next
  case True
  let ?rest = "tl (dropWhile (\<lambda>x. x \<noteq> CHR '':'') s)"
  have ne: "s \<noteq> []" using True by auto
  have "split_on CHR '':'' s = takeWhile (\<lambda>x. x \<noteq> CHR '':'') s # split_on CHR '':'' ?rest"
    using split_on_unfold [of "CHR '':''" s] True by simp
  moreover obtain ps where
    "split_on CHR '':'' ?rest = takeWhile (\<lambda>x. x \<noteq> CHR '':'') ?rest # ps"
    using split_on_unfold [of "CHR '':''" ?rest] by blast
  ultimately have
    "take 2 (split_on CHR '':'' s) =
       [takeWhile (\<lambda>x. x \<noteq> CHR '':'') s, takeWhile (\<lambda>x. x \<noteq> CHR '':'') ?rest]"
    by (simp add: numeral_2_eq_2)
  with True ne show ?thesis by (simp add: parseMavenCoords_def Let_def)
qed

theorem parseMavenCoords_first_two_pieces_witness:
  "parseMavenCoords ''group:artifact'' = Some \<lparr>groupId = ''group'', artifactId = ''artifact''\<rparr>
   \<and> parseMavenCoords ''no-colon-here'' = None"
  using parseMavenCoords_first_two_pieces [of "''group:artifact''"]
    parseMavenCoords_first_two_pieces [of "''no-colon-here''"]
  by simp

text \<open>
  C9 as the specification words it fails on a name with a second colon: cutting
  \<open>a:b:c\<close> at its first colon would give the name \<open>b:c\<close>, and \<open>a::c\<close> would have the
  non-empty name \<open>:c\<close>.
\<close>

theorem parseMavenCoords_second_colon:
  "parseMavenCoords ''a:b:c'' = Some \<lparr>groupId = ''a'', artifactId = ''b''\<rparr>
   \<and> parseMavenCoords ''a::c'' = None"
  by (simp add: parseMavenCoords_def)

section \<open>Dependency references: two failing inputs\<close>

text \<open>
  C4 on the code. The block expression starts at the first \<open><dependency>\<close> from which
  it can be completed, and its non-greedy \<open>[\s\S]*?\<close> then runs over the end of that
  block up to the coordinates searched for. With an unrelated dependency \<open>x:y\<close> in front
  of the dependency \<open>g:a\<close>, the matched text holds both blocks, and the version that is
  rewritten is the first one in it: that of \<open>x:y\<close>. The version of \<open>g:a\<close> stays.
\<close>

theorem updateDependencyVersionInPom_spans_blocks:
  "updateDependencyVersionInPom
     ''<dependencies><dependency><groupId>x</groupId><artifactId>y</artifactId><version>1.0.0</version></dependency><dependency><groupId>g</groupId><artifactId>a</artifactId><version>2.0.0</version></dependency></dependencies>''
     \<lparr>groupId = ''g'', artifactId = ''a''\<rparr> ''3.0.0''
   = Some ''<dependencies><dependency><groupId>x</groupId><artifactId>y</artifactId><version>3.0.0</version></dependency><dependency><groupId>g</groupId><artifactId>a</artifactId><version>2.0.0</version></dependency></dependencies>''"
  by (simp add: updateDependencyVersionInPom_def depBlockPattern_def depVersionPattern_def rx_eval)

text \<open>
  C3 on the code, same defect. The dependency \<open>g:a\<close> declares no version, but the
  matched text starts at the block of \<open>x:y\<close> before it, which has one: the text that
  comes back is not the input, the version of \<open>x:y\<close> has been rewritten.
\<close>

theorem updateDependencyVersionInPom_inherited_not_unchanged:
  "updateDependencyVersionInPom
     ''<dependencies><dependency><groupId>x</groupId><artifactId>y</artifactId><version>1.0.0</version></dependency><dependency><groupId>g</groupId><artifactId>a</artifactId></dependency></dependencies>''
     \<lparr>groupId = ''g'', artifactId = ''a''\<rparr> ''3.0.0''
   = Some ''<dependencies><dependency><groupId>x</groupId><artifactId>y</artifactId><version>3.0.0</version></dependency><dependency><groupId>g</groupId><artifactId>a</artifactId></dependency></dependencies>''"
  by (simp add: updateDependencyVersionInPom_def depBlockPattern_def depVersionPattern_def rx_eval)


section \<open>Merging version plans\<close>

lemma applyPlanLines_lookup:
  "map_of (applyPlanLines ls m) x =
     (case map_of (applyPlanLines ls []) x of Some v \<Rightarrow> Some v | None \<Rightarrow> map_of m x)"
proof (induction ls arbitrary: m)
  case Nil
  show ?case by simp
next
  case (Cons l ls)
  show ?case
  proof (cases "planLineEntry l")
    case None
    then show ?thesis using Cons.IH [of m] by simp
  next
    case (Some e)
    obtain p s where e: "e = (p, s)" by (cases e)
    have 1: "map_of (applyPlanLines (l # ls) m) x =
        (case map_of (applyPlanLines ls []) x of Some v \<Rightarrow> Some v
         | None \<Rightarrow> map_of (AList.update p s m) x)"
      using Some e Cons.IH [of "AList.update p s m"] by simp
    have 2: "map_of (applyPlanLines (l # ls) []) x =
        (case map_of (applyPlanLines ls []) x of Some v \<Rightarrow> Some v
         | None \<Rightarrow> map_of [(p, s)] x)"
      using Some e Cons.IH [of "[(p, s)]"] by simp
    show ?thesis
      unfolding 1 2 by (simp add: update_conv' split: option.splits)
  qed
qed

lemma applyPlanFile_lookup:
  "map_of (applyPlanFile f m) x =
     (case planAssigns f x of Some v \<Rightarrow> Some v | None \<Rightarrow> map_of m x)"
proof (cases "frontMatter f")
  case None
  then show ?thesis by (simp add: planAssigns_def applyPlanFile_def)
next
  case (Some y)
  then show ?thesis
    using applyPlanLines_lookup [of "split_on (CHR 0x0A) y" m x]
    by (simp add: planAssigns_def applyPlanFile_def)
qed

lemma mergePlans_append:
  "mergePlans (fs @ gs) m = mergePlans gs (mergePlans fs m)"
  by (induction fs arbitrary: m) simp_all

lemma mergePlans_later:
  "\<forall>g \<in> set later. planAssigns g p = None \<Longrightarrow> map_of (mergePlans later m) p = map_of m p"
proof (induction later arbitrary: m)
  case Nil
  show ?case by simp
next
  case (Cons g gs)
  then show ?case by (simp add: applyPlanFile_lookup)
qed

text \<open>
  C7. Among the plan files, taken in the order the loop processes them, the file that
  assigns a keyword to a project and has no file after it assigning that project
  decides the merged entry. So of two files naming the same project the one processed
  last wins, and what an earlier file says about a project no later file names stays.
\<close>

theorem mergePlans_last_wins:
  assumes "planAssigns f p = Some k"
    and "\<forall>g \<in> set later. planAssigns g p = None"
  shows "map_of (mergePlans (earlier @ f # later) []) p = Some k"
proof -
  have "mergePlans (earlier @ f # later) [] =
      mergePlans later (applyPlanFile f (mergePlans earlier []))"
    by (simp add: mergePlans_append)
  then show ?thesis
    using assms by (simp add: mergePlans_later applyPlanFile_lookup)
qed

theorem mergePlans_last_wins_witness:
  "map_of (mergePlans
      [''---'' @ [CHR 0x0A] @ [CHR 0x27] @ ''app-a'' @ [CHR 0x27] @ '': patch'' @ [CHR 0x0A]
         @ [CHR 0x27] @ ''app-b'' @ [CHR 0x27] @ '': minor'' @ [CHR 0x0A] @ ''---'',
       ''---'' @ [CHR 0x0A] @ [CHR 0x27] @ ''app-a'' @ [CHR 0x27] @ '': major'' @ [CHR 0x0A] @ ''---'']
      []) ''app-a'' = Some ''major''
   \<and> map_of (mergePlans
      [''---'' @ [CHR 0x0A] @ [CHR 0x27] @ ''app-a'' @ [CHR 0x27] @ '': patch'' @ [CHR 0x0A]
         @ [CHR 0x27] @ ''app-b'' @ [CHR 0x27] @ '': minor'' @ [CHR 0x0A] @ ''---'',
       ''---'' @ [CHR 0x0A] @ [CHR 0x27] @ ''app-a'' @ [CHR 0x27] @ '': major'' @ [CHR 0x0A] @ ''---'']
      []) ''app-b'' = Some ''minor''"
proof -
  let ?f1 = "''---'' @ [CHR 0x0A] @ [CHR 0x27] @ ''app-a'' @ [CHR 0x27] @ '': patch'' @ [CHR 0x0A]
         @ [CHR 0x27] @ ''app-b'' @ [CHR 0x27] @ '': minor'' @ [CHR 0x0A] @ ''---''"
  let ?f2 = "''---'' @ [CHR 0x0A] @ [CHR 0x27] @ ''app-a'' @ [CHR 0x27] @ '': major'' @ [CHR 0x0A] @ ''---''"
  have a2: "planAssigns ?f2 ''app-a'' = Some ''major''"
    by (simp add: plan_eval rx_eval)
  have b1: "planAssigns ?f1 ''app-b'' = Some ''minor''"
    by (simp add: plan_eval rx_eval)
  have b2: "planAssigns ?f2 ''app-b'' = None"
    by (simp add: plan_eval rx_eval)
  have "map_of (mergePlans ([?f1] @ ?f2 # []) []) ''app-a'' = Some ''major''"
    by (rule mergePlans_last_wins) (simp_all only: a2 list.set ball_empty)
  moreover have "map_of (mergePlans ([] @ ?f1 # [?f2]) []) ''app-b'' = Some ''minor''"
    by (rule mergePlans_last_wins) (simp_all only: b1 b2 list.set ball_simps)
  ultimately show ?thesis by simp
qed

section \<open>A version write that finds no version element\<close>

lemma updateManifests_append:
  "updateManifests n c v (xs @ ys) tree logs =
     (case updateManifests n c v xs tree logs of
        Inl e \<Rightarrow> Inl e
      | Inr (tree', logs') \<Rightarrow> updateManifests n c v ys tree' logs')"
proof (induction xs arbitrary: tree logs)
  case Nil
  show ?case by simp
next
  case (Cons x xs)
  show ?case
    by (simp add: Cons.IH split: option.splits)
qed

text \<open>
  C5, as the code has it. In \<open>MavenVersionActions.updateProjectVersion\<close> the scan is
  made anew for each manifest, on the text the tree holds when the loop reaches it:
  when that text has no version element for the coordinates, the call throws, naming
  the project and the manifest. The sync script's \<open>updatePomVersion\<close> does not fail:
  when its scan finds no version element it prints a warning, leaves the file as it is
  and returns.
\<close>

theorem version_write_without_version_element:
  "(parseMavenCoords projectName = Some c \<longrightarrow>
      updateManifests projectName c newVersion earlier tree [] = Inr (tree', logs) \<longrightarrow>
      readText tree' manifestPath = Some pomXml \<longrightarrow> pomXml \<noteq> [] \<longrightarrow>
      \<not> rx_test (projectPattern c) pomXml \<longrightarrow>
      updateProjectVersion projectName (earlier @ manifestPath # later) tree newVersion
        = Inl (PatternNotMatched projectName manifestPath))
   \<and> (disk (path_join projectRoot ''pom.xml'') = Some pomContent \<longrightarrow>
      \<not> rx_test versionRegex pomContent \<longrightarrow>
      updatePomVersion disk projectRoot newVersion = (disk, [VersionTagNotFound]))"
proof (intro conjI impI)
  assume "parseMavenCoords projectName = Some c"
    and "updateManifests projectName c newVersion earlier tree [] = Inr (tree', logs)"
    and "readText tree' manifestPath = Some pomXml" and "pomXml \<noteq> []"
    and "\<not> rx_test (projectPattern c) pomXml"
  then show "updateProjectVersion projectName (earlier @ manifestPath # later) tree newVersion
      = Inl (PatternNotMatched projectName manifestPath)"
    by (simp add: updateProjectVersion_def updateManifests_append updateProjectVersionInPom_def)
next
  assume "disk (path_join projectRoot ''pom.xml'') = Some pomContent"
    and "\<not> rx_test versionRegex pomContent"
  then show "updatePomVersion disk projectRoot newVersion = (disk, [VersionTagNotFound])"
    by (cases "rx_search versionRegex pomContent") (simp_all add: updatePomVersion_def rx_test_def)
qed

theorem version_write_without_version_element_witness:
  "updateProjectVersion ''g:a'' [''pom.xml'']
     (Map.empty(''pom.xml'' \<mapsto> ''<project><groupId>g</groupId><artifactId>a</artifactId></project>''))
     ''1.0.1''
     = Inl (PatternNotMatched ''g:a'' ''pom.xml'')
   \<and> updatePomVersion
     (Map.empty(''app/pom.xml'' \<mapsto> ''<project><artifactId>a</artifactId></project>''))
     ''app'' ''1.0.1''
     = (Map.empty(''app/pom.xml'' \<mapsto> ''<project><artifactId>a</artifactId></project>''),
        [VersionTagNotFound])"
proof -
  let ?pom = "''<project><groupId>g</groupId><artifactId>a</artifactId></project>''"
  let ?c = "\<lparr>groupId = ''g'', artifactId = ''a''\<rparr>"
  have c: "parseMavenCoords ''g:a'' = Some ?c"
    by (simp add: parseMavenCoords_def)
  have no: "\<not> rx_test (projectPattern ?c) ?pom"
    by (simp add: projectPattern_def groupIdPart_def artifactIdPart_def rx_eval)
  have no': "\<not> rx_test versionRegex ''<project><artifactId>a</artifactId></project>''"
    by (simp add: versionRegex_def rx_eval)
  show ?thesis
    using version_write_without_version_element
      [where projectName = "''g:a''" and c = ?c and newVersion = "''1.0.1''" and earlier = "[]"
         and tree = "Map.empty(''pom.xml'' \<mapsto> ?pom)"
         and tree' = "Map.empty(''pom.xml'' \<mapsto> ?pom)" and logs = "[]"
         and manifestPath = "''pom.xml''" and pomXml = ?pom and later = "[]"
         and disk = "Map.empty(''app/pom.xml'' \<mapsto> ''<project><artifactId>a</artifactId></project>'')"
         and projectRoot = "''app''"
         and pomContent = "''<project><artifactId>a</artifactId></project>''"]
      c no no'
    by (simp add: readText_def path_eval)
qed

text \<open>
  C5 as the specification words it fails on the sync script: a manifest without a
  version element is a warning there, not an error, and the script goes on.
\<close>

theorem updatePomVersion_silent_without_version:
  "updatePomVersion
     (Map.empty(''app/pom.xml'' \<mapsto> ''<project><artifactId>a</artifactId></project>''))
     ''app'' ''1.0.1''
   = (Map.empty(''app/pom.xml'' \<mapsto> ''<project><artifactId>a</artifactId></project>''),
      [VersionTagNotFound])"
  by (simp add: updatePomVersion_def versionRegex_def path_eval rx_eval)

section \<open>Reading the version back\<close>

text \<open>A text made of digits, letters, \<open>.\<close>, \<open>-\<close> and \<open>+\<close> has neither \<open><\<close> nor \<open>$\<close>.\<close>

lemma version_characters_plain:
  assumes "list_all (\<lambda>x. is_digit x \<or> is_alpha x \<or> x \<in> set ''.-+'') v"
  shows "CHR ''<'' \<notin> set v \<and> CHR ''$'' \<notin> set v"
  using assms by (induction v) (auto simp: is_digit_def is_alpha_def)

text \<open>
  C1. For a manifest text where the coordinate expression finds a version element, and
  a new version string, the update succeeds, reading the updated text gives the new
  version, and the updated text is the original one with the text between
  \<open><version>\<close> and \<open></version>\<close> of that element (the text read before the update)
  replaced. A version string is not empty and has neither \<open><\<close> nor \<open>$\<close>: the
  versions the release framework computes and passes are made of digits, letters,
  \<open>.\<close>, \<open>-\<close> and \<open>+\<close>.
\<close>

theorem read_after_update:
  assumes "newVersion \<noteq> []" and "CHR ''<'' \<notin> set newVersion"
    and "CHR ''$'' \<notin> set newVersion"
    and "rx_test (projectPattern c) pomXml"
  shows "\<exists>updated pre g1 old post.
      updateProjectVersionInPom pomXml c newVersion = Some updated
    \<and> readProjectVersionFromPom updated c = Some newVersion
    \<and> readProjectVersionFromPom pomXml c = Some old
    \<and> pomXml = pre @ g1 @ old @ ''</version>'' @ post
    \<and> updated = pre @ g1 @ newVersion @ ''</version>'' @ post
    \<and> suffix ''<version>'' g1"
proof -
  from assms(4) obtain pre ws post where
    m: "rx_search (projectPattern c) pomXml = Some (pre, ws, post)"
    by (auto simp: rx_test_def)
  let ?g1 = "group_text (0, 13) ws"
  let ?updated = "pre @ ?g1 @ newVersion @ ''</version>'' @ post"
  from project_match_shape [OF m] obtain old where
    old: "group_text (13, 14) ws = old"
    and pom: "pomXml = pre @ ?g1 @ old @ ''</version>'' @ post"
    and suf: "suffix ''<version>'' ?g1"
    by (auto simp: suffix_def)
  have u: "updateProjectVersionInPom pomXml c newVersion = Some ?updated"
    using updateProjectVersionInPom_result [OF m assms(3)] .
  from project_rematch [OF assms(1,2) m] obtain ws' where
    "rx_search (projectPattern c) ?updated = Some (pre, ws', post)"
    and "group_text (13, 14) ws' = newVersion"
    by blast
  then have r: "readProjectVersionFromPom ?updated c = Some newVersion"
    by (simp add: readProjectVersionFromPom_def)
  have r0: "readProjectVersionFromPom pomXml c = Some old"
    using m old by (simp add: readProjectVersionFromPom_def)
  from u r r0 pom suf show ?thesis by blast
qed



theorem read_after_update_witness:
  "\<exists>updated pre g1 old post.
      updateProjectVersionInPom ''<project><groupId>g</groupId><artifactId>a</artifactId><version>1.0.0</version></project>'' \<lparr>groupId = ''g'', artifactId = ''a''\<rparr> ''1.1.0-beta.1'' = Some updated
    \<and> readProjectVersionFromPom updated \<lparr>groupId = ''g'', artifactId = ''a''\<rparr> = Some ''1.1.0-beta.1''
    \<and> readProjectVersionFromPom ''<project><groupId>g</groupId><artifactId>a</artifactId><version>1.0.0</version></project>'' \<lparr>groupId = ''g'', artifactId = ''a''\<rparr> = Some old
    \<and> ''<project><groupId>g</groupId><artifactId>a</artifactId><version>1.0.0</version></project>'' = pre @ g1 @ old @ ''</version>'' @ post
    \<and> updated = pre @ g1 @ ''1.1.0-beta.1'' @ ''</version>'' @ post
    \<and> suffix ''<version>'' g1"
proof -
  have 1: "''1.1.0-beta.1'' \<noteq> []" by simp
  have 2: "CHR ''<'' \<notin> set ''1.1.0-beta.1''" by simp
  have 3: "CHR ''$'' \<notin> set ''1.1.0-beta.1''" by simp
  have 4: "rx_test (projectPattern \<lparr>groupId = ''g'', artifactId = ''a''\<rparr>) ''<project><groupId>g</groupId><artifactId>a</artifactId><version>1.0.0</version></project>''"
    by (simp add: pom_eval rx_eval)
  show ?thesis by (rule read_after_update [OF 1 2 3 4])
qed

section \<open>Which version element a project's update rewrites\<close>

text \<open>
  C2 fails on the code. The sync script's \<open>updatePomVersion\<close> rewrites the first
  \<open><version>\<close> element of the file, which its comment takes to be the project
  version: in a manifest that declares a parent, the parent's version comes first, is
  rewritten, and the project's own version element, with the same text, stays as it
  was. The same happens with a dependency listed before the project's version.
  \<open>updateProjectVersionInPom\<close> looks for the coordinates, but nothing holds its
  expression to the project's own elements: from the group id \<open>g\<close> of the parent it
  runs on to the first artifact id \<open>a\<close> that a version follows, here that of the
  dependency \<open>x:a\<close>, and the project's own version is not touched; and for a project
  \<open>g:a\<close> with no version element of its own it rewrites the version of the
  dependency \<open>x:a\<close>.
\<close>

theorem updatePomVersion_rewrites_other_element:
  "updatePomVersion
     (Map.empty(''app/pom.xml'' \<mapsto> ''<project><parent><groupId>g</groupId><artifactId>p</artifactId><version>1.0.0</version></parent><artifactId>a</artifactId><version>1.0.0</version></project>''))
     ''app'' ''1.0.1''
   = (Map.empty(''app/pom.xml'' \<mapsto> ''<project><parent><groupId>g</groupId><artifactId>p</artifactId><version>1.0.1</version></parent><artifactId>a</artifactId><version>1.0.0</version></project>''),
      [PomUpdated ''1.0.0'' ''1.0.1''])
   \<and> updatePomVersion
     (Map.empty(''app/pom.xml'' \<mapsto> ''<project><dependencies><dependency><groupId>x</groupId><artifactId>y</artifactId><version>1.0.0</version></dependency></dependencies><groupId>g</groupId><artifactId>a</artifactId><version>1.0.0</version></project>''))
     ''app'' ''1.0.1''
   = (Map.empty(''app/pom.xml'' \<mapsto> ''<project><dependencies><dependency><groupId>x</groupId><artifactId>y</artifactId><version>1.0.1</version></dependency></dependencies><groupId>g</groupId><artifactId>a</artifactId><version>1.0.0</version></project>''),
      [PomUpdated ''1.0.0'' ''1.0.1''])
   \<and> updateProjectVersionInPom
     ''<project><parent><groupId>g</groupId><artifactId>p</artifactId><version>1.0.0</version></parent><dependencies><dependency><groupId>x</groupId><artifactId>a</artifactId><version>1.0.0</version></dependency></dependencies><artifactId>a</artifactId><version>1.0.0</version></project>''
     \<lparr>groupId = ''g'', artifactId = ''a''\<rparr> ''1.0.1''
   = Some ''<project><parent><groupId>g</groupId><artifactId>p</artifactId><version>1.0.0</version></parent><dependencies><dependency><groupId>x</groupId><artifactId>a</artifactId><version>1.0.1</version></dependency></dependencies><artifactId>a</artifactId><version>1.0.0</version></project>''
   \<and> updateProjectVersionInPom
     ''<project><groupId>g</groupId><artifactId>a</artifactId><packaging>jar</packaging><dependencies><dependency><groupId>x</groupId><artifactId>a</artifactId><version>1.0.0</version></dependency></dependencies></project>''
     \<lparr>groupId = ''g'', artifactId = ''a''\<rparr> ''1.0.1''
   = Some ''<project><groupId>g</groupId><artifactId>a</artifactId><packaging>jar</packaging><dependencies><dependency><groupId>x</groupId><artifactId>a</artifactId><version>1.0.1</version></dependency></dependencies></project>''"
  by (simp add: updatePomVersion_def versionRegex_def path_eval pom_eval rx_eval)

section \<open>What the version generator returns\<close>

lemma pomVersionPattern_pieces:
  "list_all2 piece_ok pomVersionPattern ws \<Longrightarrow> group_text (5, 6) ws \<noteq> []"
  unfolding pomVersionPattern_def by (auto simp: list_all2_Cons1 group_text_def)

lemma getVersionFromPom_not_empty:
  assumes "getVersionFromPom disk projectRoot = Inr cur"
  shows "cur \<noteq> []"
proof (cases "disk (path_join projectRoot ''pom.xml'')")
  case None
  with assms show ?thesis by (simp add: getVersionFromPom_def)
next
  case (Some pomContent)
  show ?thesis
  proof (cases "rx_search pomVersionPattern pomContent")
    case None
    with Some assms show ?thesis by (simp add: getVersionFromPom_def)
  next
    case (Some m)
    obtain pre ws post where m: "m = (pre, ws, post)" by (cases m)
    with Some \<open>disk (path_join projectRoot ''pom.xml'') = Some pomContent\<close> assms
    have cur: "cur = group_text (5, 6) ws" by (simp add: getVersionFromPom_def)
    from Some m have "list_all2 piece_ok pomVersionPattern ws"
      using rx_search_sound [of pomVersionPattern pomContent pre ws post] by simp
    then show ?thesis unfolding cur by (rule pomVersionPattern_pieces)
  qed
qed

lemma getVersion_not_empty:
  assumes "getVersion L disk projectRoot = Inr cur"
  shows "cur \<noteq> []"
proof (cases "isMavenProject disk projectRoot")
  case True
  with assms have "getVersionFromPom disk projectRoot = Inr cur"
    by (simp add: getVersion_def)
  then show ?thesis by (rule getVersionFromPom_not_empty)
next
  case False
  with assms have "getVersionFromPackageJson L disk projectRoot = Inr cur"
    by (simp add: getVersion_def)
  then show ?thesis
    by (auto simp: getVersionFromPackageJson_def Let_def split: option.splits if_splits)
qed

text \<open>
  The loop does what C10 says, in both copies: for a project whose specifier is falsy,
  or whose new version is its current one, the iteration leaves the files, on the disk
  and in the tree, as they were and stores an entry whose new version is the current
  version.
\<close>

lemma processProject_unbumped:
  assumes "getVersion L (fst st) (path_join workspaceRoot (p_root p)) = Inr cur"
    and "\<not> truthy spec \<or> nextVersion L cur spec preid = Some cur"
  shows "processProject L ''disk'' preid spec st p
     = Inr (st, \<lparr>vd_currentVersion = cur, vd_newVersion = cur, vd_projectRoot = p_root p\<rparr>)"
proof -
  have ne: "cur \<noteq> []" using assms(1) by (rule getVersion_not_empty)
  from assms(2) show ?thesis
  proof
    assume f: "\<not> truthy spec"
    have "nextVersion L cur spec preid = Some cur \<or> nextVersion L cur spec preid = Some []"
      using f by (cases spec) (auto simp: nextVersion_def truthy_def semverValid_def)
    then show ?thesis
      using assms(1) f ne by (auto simp: processProject_def Let_def)
  next
    assume "nextVersion L cur spec preid = Some cur"
    then show ?thesis
      using assms(1) ne by (simp add: processProject_def Let_def)
  qed
qed

lemma processProjects_append:
  "processProjects L r preid sf (xs @ ys) state =
     (case processProjects L r preid sf xs state of
        Inl e \<Rightarrow> Inl e
      | Inr state' \<Rightarrow> processProjects L r preid sf ys state')"
proof (induction xs arbitrary: state)
  case Nil
  show ?case by simp
next
  case (Cons x xs)
  show ?case by (simp add: Cons.IH split: sum.splits prod.splits)
qed

lemma get_entry_set_entry:
  "get_entry (set_entry key entry r) n = (if n = key then Some entry else get_entry r n)"
  by (simp add: get_entry_def set_entry_def update_conv')

lemma processProjects_other_names:
  "processProjects L r preid sf ps (st, res) = Inr (st', res') \<Longrightarrow>
   n \<notin> p_name ` set ps \<Longrightarrow> get_entry res' n = get_entry res n"
proof (induction ps arbitrary: st res)
  case Nil
  then show ?case by simp
next
  case (Cons q qs)
  from Cons.prems(1) obtain st1 entry where
    "processProject L r preid (sf q) st q = Inr (st1, entry)"
    and rest: "processProjects L r preid sf qs (st1, set_entry (p_name q) entry res) = Inr (st', res')"
    by (auto split: sum.splits)
  from Cons.IH [OF rest] Cons.prems(2) show ?case
    by (simp add: get_entry_set_entry)
qed

lemma processProjects_unbumped:
  assumes "processProjects L ''disk'' preid specifierOf earlier (st0, res0) = Inr (st, res)"
    and "getVersion L (fst st) (path_join workspaceRoot (p_root p)) = Inr cur"
    and "\<not> truthy (specifierOf p) \<or> nextVersion L cur (specifierOf p) preid = Some cur"
    and "processProjects L ''disk'' preid specifierOf (earlier @ p # later) (st0, res0)
          = Inr (st', res')"
    and "p_name p \<notin> p_name ` set later"
  shows "processProjects L ''disk'' preid specifierOf later
           (st, set_entry (p_name p)
                  \<lparr>vd_currentVersion = cur, vd_newVersion = cur, vd_projectRoot = p_root p\<rparr> res)
         = Inr (st', res')"
    and "get_entry res' (p_name p)
         = Some \<lparr>vd_currentVersion = cur, vd_newVersion = cur, vd_projectRoot = p_root p\<rparr>"
proof -
  let ?entry = "\<lparr>vd_currentVersion = cur, vd_newVersion = cur, vd_projectRoot = p_root p\<rparr>"
  have step: "processProject L ''disk'' preid (specifierOf p) st p = Inr (st, ?entry)"
    using assms(2,3) by (rule processProject_unbumped)
  have one: "processProjects L ''disk'' preid specifierOf (earlier @ [p]) (st0, res0)
      = Inr (st, set_entry (p_name p) ?entry res)"
    using assms(1) step by (simp add: processProjects_append)
  have "earlier @ p # later = (earlier @ [p]) @ later" by simp
  with assms(4) one show run:
    "processProjects L ''disk'' preid specifierOf later
       (st, set_entry (p_name p) ?entry res) = Inr (st', res')"
    by (simp only: processProjects_append sum.case)
  from processProjects_other_names [OF run assms(5)]
  show "get_entry res' (p_name p) = Some ?entry"
    by (simp add: get_entry_set_entry)
qed

text \<open>
  The earlier copy returns that entry: its result maps the project to its current
  version.
\<close>

lemma versionGenerator_part_001_unbumped:
  assumes "opt_projects opts = Some (earlier @ p # later)"
    and "opt_currentVersionResolver opts = ''disk''"
    and "processProjects L ''disk'' (opt_preid opts) (\<lambda>p. globalSpecifier opts) earlier
           ((disk, Some tree), empty_results) = Inr (st, res)"
    and "getVersion L (fst st) (path_join workspaceRoot (p_root p)) = Inr cur"
    and "\<not> truthy (globalSpecifier opts)
         \<or> nextVersion L cur (globalSpecifier opts) (opt_preid opts) = Some cur"
    and "versionGenerator_part_001 L disk tree opts = Inr (st', r)"
    and "p_name p \<notin> p_name ` set later"
  shows "\<exists>data. r = Some data
     \<and> get_entry data (p_name p)
         = Some \<lparr>vd_currentVersion = cur, vd_newVersion = cur, vd_projectRoot = p_root p\<rparr>"
proof -
  from assms(6) obtain data where
    run: "processProjects L ''disk'' (opt_preid opts) (\<lambda>p. globalSpecifier opts)
            (earlier @ p # later) ((disk, Some tree), empty_results) = Inr (st', data)"
    and r: "r = Some data"
    using assms(1,2) by (auto simp: versionGenerator_part_001_def split: sum.splits)
  from processProjects_unbumped(2) [OF assms(3) assms(4) assms(5) run assms(7)] r
  show ?thesis by simp
qed

text \<open>
  \<open>generator.js\<close> runs the same loop and then returns nothing: it resolves to
  \<open>undefined\<close> whatever the projects are.
\<close>

lemma versionGenerator_resolves_undefined:
  "versionGenerator L disk tree planTexts opts = Inr (st, r) \<Longrightarrow> r = None"
  by (auto simp: versionGenerator_def Let_def split: option.splits if_splits sum.splits)

text \<open>
  With the plans as source, a project that no plan names but whose name is a key of
  \<open>Object.prototype\<close> gets the inherited member as its specifier, and the generator
  throws.
\<close>

lemma versionGenerator_inherited_specifier:
  "versionGenerator L
     (Map.empty(''apps/app/pom.xml'' \<mapsto> ''<project><artifactId>app</artifactId><version>1.0.0</version></project>''))
     Map.empty (Some [])
     \<lparr>opt_specifier = None, opt_preid = None, opt_currentVersionResolver = ''disk'',
      opt_projects = Some [\<lparr>p_name = ''toString'', p_root = ''apps/app''\<rparr>],
      opt_specifierSource = Some ''version-plans''\<rparr>
   = Inl (CannotCalculate ''1.0.0'' (Member ''toString''))"
  by (simp add: generator_eval path_eval rx_eval)

text \<open>
  C10 fails on \<open>generator.js\<close>. One Maven project at version \<open>1.0.0\<close>, which the one
  plan file does not name: the generator writes nothing, as the claim says, but it
  returns no result at all, where the claim has the returned result map the project to
  its current version. The earlier copy of the generator, on the same project with no
  specifier, returns that result.
\<close>

theorem versionGenerator_returns_no_result:
  "versionGenerator L
     (Map.empty(''apps/app/pom.xml'' \<mapsto> ''<project><artifactId>app</artifactId><version>1.0.0</version></project>''))
     Map.empty (Some [''---'' @ [CHR 0x0A] @ [CHR 0x27] @ ''lib'' @ [CHR 0x27] @ '': patch'' @ [CHR 0x0A] @ ''---'' @ [CHR 0x0A]])
     \<lparr>opt_specifier = None, opt_preid = None, opt_currentVersionResolver = ''disk'',
      opt_projects = Some [\<lparr>p_name = ''app'', p_root = ''apps/app''\<rparr>],
      opt_specifierSource = Some ''version-plans''\<rparr>
   = Inr ((Map.empty(''apps/app/pom.xml'' \<mapsto> ''<project><artifactId>app</artifactId><version>1.0.0</version></project>''),
           Some Map.empty), None)
   \<and> versionGenerator_part_001 L
     (Map.empty(''apps/app/pom.xml'' \<mapsto> ''<project><artifactId>app</artifactId><version>1.0.0</version></project>''))
     Map.empty
     \<lparr>opt_specifier = None, opt_preid = None, opt_currentVersionResolver = ''disk'',
      opt_projects = Some [\<lparr>p_name = ''app'', p_root = ''apps/app''\<rparr>],
      opt_specifierSource = None\<rparr>
   = Inr ((Map.empty(''apps/app/pom.xml'' \<mapsto> ''<project><artifactId>app</artifactId><version>1.0.0</version></project>''),
           Some Map.empty),
          Some \<lparr>own_entries = [(''app'', \<lparr>vd_currentVersion = ''1.0.0'', vd_newVersion = ''1.0.0'',
                                     vd_projectRoot = ''apps/app''\<rparr>)],
                prototype_entry = None\<rparr>)"
  by (simp add: generator_eval path_eval plan_eval rx_eval)

section \<open>When the release script removes the plan files\<close>

lemma changelogEvents_no_unlink: "Unlink f ok \<notin> set (changelogEvents env vs)"
  by (auto simp: changelogEvents_def)

lemma unlinkEvents_only_unlink:
  "unlinkEvents env files = (es, ok) \<Longrightarrow> list_all after_delete es"
proof (induction files arbitrary: es ok)
  case Nil
  then show ?case by simp
next
  case (Cons f fs)
  then show ?case
    by (auto simp: after_delete_def split: if_splits prod.splits)
qed

lemma unlinkEvents_all_ok:
  "\<forall>g. env_unlinkOk env g \<Longrightarrow>
     unlinkEvents env files = (map (\<lambda>g. Unlink g True) files, True)"
  by (induction files) simp_all

text \<open>
  C6, as the code has it. A plan file is removed only when this is not a dry run and
  the version command has returned before, with no removal before it; and from the
  first removal on, the trace holds only removals, the lockfile command and the exit.
  When the version command throws, no plan file is removed and the script exits with
  status 1. When it returns, and the plans name a project, the script goes on to
  remove every plan file, whatever the changelog commands did.
\<close>

theorem plans_deleted_after_version_step:
  "(Unlink f ok \<in> set (releaseScript env) \<longrightarrow>
      \<not> isDryRun env \<and>
      (\<exists>pre post. releaseScript env = pre @ post
         \<and> Exec (versionCmd env) True \<in> set pre
         \<and> (\<forall>g k. Unlink g k \<notin> set pre)
         \<and> list_all after_delete post))
   \<and> (\<not> isDryRun env \<longrightarrow> \<not> env_execOk env (versionCmd env) \<longrightarrow>
      Unlink f ok \<notin> set (releaseScript env) \<and> last (releaseScript env) = Exit 1)
   \<and> (\<not> isDryRun env \<longrightarrow> env_execOk env (versionCmd env) \<longrightarrow>
      env_plansDir env = Some listing \<longrightarrow>
      mergePlans (map snd (filter (\<lambda>(f, text). suffix ''.md'' f) listing)) [] \<noteq> [] \<longrightarrow>
      (\<forall>g. env_unlinkOk env g) \<longrightarrow> (planFile, content) \<in> set listing \<longrightarrow> suffix ''.md'' planFile \<longrightarrow>
      Unlink planFile True \<in> set (releaseScript env))"
proof -
  have A: "\<not> isDryRun env \<and>
      (\<exists>pre post. releaseScript env = pre @ post
         \<and> Exec (versionCmd env) True \<in> set pre
         \<and> (\<forall>g k. Unlink g k \<notin> set pre)
         \<and> list_all after_delete post)"
    if u: "Unlink f ok \<in> set (releaseScript env)"
  proof -
  from u obtain listing where dir: "env_plansDir env = Some listing"
    by (cases "env_plansDir env") (auto simp: releaseScript_def)
  define planFiles where "planFiles = filter (\<lambda>(f, text). suffix ''.md'' f) listing"
  define projects where "projects = mergePlans (map snd planFiles) []"
  obtain es k where ue: "unlinkEvents env (map fst planFiles) = (es, k)"
    by (cases "unlinkEvents env (map fst planFiles)")
  define tail where "tail = (if \<not> k then [Exit 1]
      else if env_execOk env lockfileCmd then [Exec lockfileCmd True, Exit 0]
      else [Exec lockfileCmd False, Exit 1])"
  from u dir have c: "planFiles \<noteq> []" "projects \<noteq> []"
    "isDryRun env \<or> env_execOk env (versionCmd env)"
    by (auto simp: releaseScript_def Let_def planFiles_def projects_def split: if_splits)
  have nd: "\<not> isDryRun env"
  proof
    assume "isDryRun env"
    with u dir c show False
      by (auto simp: releaseScript_def Let_def planFiles_def projects_def changelogEvents_def
          split: if_splits)
  qed
  with c have ok: "env_execOk env (versionCmd env)" by simp
  let ?pre = "[Exec (versionCmd env) True] @ changelogEvents env (updatedVersions env projects)"
  have tr: "releaseScript env = ?pre @ (es @ tail)"
    using dir c nd ok ue
    by (simp add: releaseScript_def Let_def planFiles_def [symmetric] projects_def [symmetric]
        tail_def)
  have "list_all after_delete (es @ tail)"
    using unlinkEvents_only_unlink [OF ue] by (simp add: tail_def after_delete_def)
  moreover have "\<forall>g k. Unlink g k \<notin> set ?pre"
    using changelogEvents_no_unlink by simp
  moreover have "Exec (versionCmd env) True \<in> set ?pre" by simp
  ultimately have "\<exists>pre post. releaseScript env = pre @ post
         \<and> Exec (versionCmd env) True \<in> set pre
         \<and> (\<forall>g k. Unlink g k \<notin> set pre)
         \<and> list_all after_delete post"
    using tr by blast
  with nd show ?thesis by simp
  qed
  have B: "Unlink f ok \<notin> set (releaseScript env) \<and> last (releaseScript env) = Exit 1"
    if "\<not> isDryRun env" "\<not> env_execOk env (versionCmd env)"
    using that by (auto simp: releaseScript_def Let_def split: option.splits)
  have C: "Unlink planFile True \<in> set (releaseScript env)"
    if nd: "\<not> isDryRun env" and ok: "env_execOk env (versionCmd env)"
      and dir: "env_plansDir env = Some listing"
      and pr: "mergePlans (map snd (filter (\<lambda>(f, text). suffix ''.md'' f) listing)) [] \<noteq> []"
      and un: "\<forall>g. env_unlinkOk env g"
      and mem: "(planFile, content) \<in> set listing" and md: "suffix ''.md'' planFile"
  proof -
    define planFiles where "planFiles = filter (\<lambda>(f, text). suffix ''.md'' f) listing"
    have m: "(planFile, content) \<in> set planFiles"
      using mem md by (simp add: planFiles_def)
    then have ne: "planFiles \<noteq> []" by auto
    have ue: "unlinkEvents env (map fst planFiles)
        = (map (\<lambda>g. Unlink g True) (map fst planFiles), True)"
      using unlinkEvents_all_ok [OF un] .
    have "Unlink planFile True \<in> set (map (\<lambda>g. Unlink g True) (map fst planFiles))"
      using m by force
    then show ?thesis
      using dir ne pr nd ok ue
      by (simp add: releaseScript_def Let_def planFiles_def [symmetric])
  qed
  from A B C show ?thesis by blast
qed


theorem plans_deleted_after_version_step_witness:
  "(\<not> isDryRun \<lparr>env_args = [], env_plansDir = Some [(''plan.md'', (''---'' @ [CHR 0x0A] @ [CHR 0x27] @ ''app'' @ [CHR 0x27] @ '': patch'' @ [CHR 0x0A] @ ''---''))], env_execOk = (\<lambda>cmd. True), env_unlinkOk = (\<lambda>f. True), env_versionOf = (\<lambda>n. Some ''1.0.1'')\<rparr> \<and>
      (\<exists>pre post. releaseScript \<lparr>env_args = [], env_plansDir = Some [(''plan.md'', (''---'' @ [CHR 0x0A] @ [CHR 0x27] @ ''app'' @ [CHR 0x27] @ '': patch'' @ [CHR 0x0A] @ ''---''))], env_execOk = (\<lambda>cmd. True), env_unlinkOk = (\<lambda>f. True), env_versionOf = (\<lambda>n. Some ''1.0.1'')\<rparr> = pre @ post
         \<and> Exec (versionCmd \<lparr>env_args = [], env_plansDir = Some [(''plan.md'', (''---'' @ [CHR 0x0A] @ [CHR 0x27] @ ''app'' @ [CHR 0x27] @ '': patch'' @ [CHR 0x0A] @ ''---''))], env_execOk = (\<lambda>cmd. True), env_unlinkOk = (\<lambda>f. True), env_versionOf = (\<lambda>n. Some ''1.0.1'')\<rparr>) True \<in> set pre
         \<and> (\<forall>g k. Unlink g k \<notin> set pre)
         \<and> list_all after_delete post))
   \<and> (Unlink ''plan.md'' True \<notin> set (releaseScript \<lparr>env_args = [], env_plansDir = Some [(''plan.md'', (''---'' @ [CHR 0x0A] @ [CHR 0x27] @ ''app'' @ [CHR 0x27] @ '': patch'' @ [CHR 0x0A] @ ''---''))], env_execOk = (\<lambda>cmd. False), env_unlinkOk = (\<lambda>f. True), env_versionOf = (\<lambda>n. Some ''1.0.1'')\<rparr>) \<and> last (releaseScript \<lparr>env_args = [], env_plansDir = Some [(''plan.md'', (''---'' @ [CHR 0x0A] @ [CHR 0x27] @ ''app'' @ [CHR 0x27] @ '': patch'' @ [CHR 0x0A] @ ''---''))], env_execOk = (\<lambda>cmd. False), env_unlinkOk = (\<lambda>f. True), env_versionOf = (\<lambda>n. Some ''1.0.1'')\<rparr>) = Exit 1)
   \<and> Unlink ''plan.md'' True \<in> set (releaseScript \<lparr>env_args = [], env_plansDir = Some [(''plan.md'', (''---'' @ [CHR 0x0A] @ [CHR 0x27] @ ''app'' @ [CHR 0x27] @ '': patch'' @ [CHR 0x0A] @ ''---''))], env_execOk = (\<lambda>cmd. True), env_unlinkOk = (\<lambda>f. True), env_versionOf = (\<lambda>n. Some ''1.0.1'')\<rparr>)"
proof -
  have tr: "releaseScript \<lparr>env_args = [], env_plansDir = Some [(''plan.md'', (''---'' @ [CHR 0x0A] @ [CHR 0x27] @ ''app'' @ [CHR 0x27] @ '': patch'' @ [CHR 0x0A] @ ''---''))], env_execOk = (\<lambda>cmd. True), env_unlinkOk = (\<lambda>f. True), env_versionOf = (\<lambda>n. Some ''1.0.1'')\<rparr> =
      [Exec ''npx nx release version --git-commit=false --stage-changes=false'' True, Exec (changelogCmd ''app'' ''1.0.1'') True, Unlink ''plan.md'' True,
       Exec lockfileCmd True, Exit 0]"
    by (simp add: release_eval plan_eval rx_eval)
  have u: "Unlink ''plan.md'' True \<in> set (releaseScript \<lparr>env_args = [], env_plansDir = Some [(''plan.md'', (''---'' @ [CHR 0x0A] @ [CHR 0x27] @ ''app'' @ [CHR 0x27] @ '': patch'' @ [CHR 0x0A] @ ''---''))], env_execOk = (\<lambda>cmd. True), env_unlinkOk = (\<lambda>f. True), env_versionOf = (\<lambda>n. Some ''1.0.1'')\<rparr>)"
    unfolding tr by simp
  have nd1: "\<not> isDryRun \<lparr>env_args = [], env_plansDir = Some [(''plan.md'', (''---'' @ [CHR 0x0A] @ [CHR 0x27] @ ''app'' @ [CHR 0x27] @ '': patch'' @ [CHR 0x0A] @ ''---''))], env_execOk = (\<lambda>cmd. True), env_unlinkOk = (\<lambda>f. True), env_versionOf = (\<lambda>n. Some ''1.0.1'')\<rparr>" by (simp add: isDryRun_def)
  have ok1: "env_execOk \<lparr>env_args = [], env_plansDir = Some [(''plan.md'', (''---'' @ [CHR 0x0A] @ [CHR 0x27] @ ''app'' @ [CHR 0x27] @ '': patch'' @ [CHR 0x0A] @ ''---''))], env_execOk = (\<lambda>cmd. True), env_unlinkOk = (\<lambda>f. True), env_versionOf = (\<lambda>n. Some ''1.0.1'')\<rparr> (versionCmd \<lparr>env_args = [], env_plansDir = Some [(''plan.md'', (''---'' @ [CHR 0x0A] @ [CHR 0x27] @ ''app'' @ [CHR 0x27] @ '': patch'' @ [CHR 0x0A] @ ''---''))], env_execOk = (\<lambda>cmd. True), env_unlinkOk = (\<lambda>f. True), env_versionOf = (\<lambda>n. Some ''1.0.1'')\<rparr>)" by simp
  have dir: "env_plansDir \<lparr>env_args = [], env_plansDir = Some [(''plan.md'', (''---'' @ [CHR 0x0A] @ [CHR 0x27] @ ''app'' @ [CHR 0x27] @ '': patch'' @ [CHR 0x0A] @ ''---''))], env_execOk = (\<lambda>cmd. True), env_unlinkOk = (\<lambda>f. True), env_versionOf = (\<lambda>n. Some ''1.0.1'')\<rparr> = Some [(''plan.md'', (''---'' @ [CHR 0x0A] @ [CHR 0x27] @ ''app'' @ [CHR 0x27] @ '': patch'' @ [CHR 0x0A] @ ''---''))]" by simp
  have pr: "mergePlans (map snd (filter (\<lambda>(f, text). suffix ''.md'' f) [(''plan.md'', (''---'' @ [CHR 0x0A] @ [CHR 0x27] @ ''app'' @ [CHR 0x27] @ '': patch'' @ [CHR 0x0A] @ ''---''))])) [] \<noteq> []"
    by (simp add: plan_eval rx_eval suffix_to_prefix)
  have un: "\<forall>g. env_unlinkOk \<lparr>env_args = [], env_plansDir = Some [(''plan.md'', (''---'' @ [CHR 0x0A] @ [CHR 0x27] @ ''app'' @ [CHR 0x27] @ '': patch'' @ [CHR 0x0A] @ ''---''))], env_execOk = (\<lambda>cmd. True), env_unlinkOk = (\<lambda>f. True), env_versionOf = (\<lambda>n. Some ''1.0.1'')\<rparr> g" by simp
  have mem: "(''plan.md'', (''---'' @ [CHR 0x0A] @ [CHR 0x27] @ ''app'' @ [CHR 0x27] @ '': patch'' @ [CHR 0x0A] @ ''---'')) \<in> set [(''plan.md'', (''---'' @ [CHR 0x0A] @ [CHR 0x27] @ ''app'' @ [CHR 0x27] @ '': patch'' @ [CHR 0x0A] @ ''---''))]" by simp
  have md: "suffix ''.md'' ''plan.md''" by (simp add: suffix_to_prefix)
  have nd2: "\<not> isDryRun \<lparr>env_args = [], env_plansDir = Some [(''plan.md'', (''---'' @ [CHR 0x0A] @ [CHR 0x27] @ ''app'' @ [CHR 0x27] @ '': patch'' @ [CHR 0x0A] @ ''---''))], env_execOk = (\<lambda>cmd. False), env_unlinkOk = (\<lambda>f. True), env_versionOf = (\<lambda>n. Some ''1.0.1'')\<rparr>" by (simp add: isDryRun_def)
  have no2: "\<not> env_execOk \<lparr>env_args = [], env_plansDir = Some [(''plan.md'', (''---'' @ [CHR 0x0A] @ [CHR 0x27] @ ''app'' @ [CHR 0x27] @ '': patch'' @ [CHR 0x0A] @ ''---''))], env_execOk = (\<lambda>cmd. False), env_unlinkOk = (\<lambda>f. True), env_versionOf = (\<lambda>n. Some ''1.0.1'')\<rparr> (versionCmd \<lparr>env_args = [], env_plansDir = Some [(''plan.md'', (''---'' @ [CHR 0x0A] @ [CHR 0x27] @ ''app'' @ [CHR 0x27] @ '': patch'' @ [CHR 0x0A] @ ''---''))], env_execOk = (\<lambda>cmd. False), env_unlinkOk = (\<lambda>f. True), env_versionOf = (\<lambda>n. Some ''1.0.1'')\<rparr>)" by simp
  from plans_deleted_after_version_step
    [where env = "\<lparr>env_args = [], env_plansDir = Some [(''plan.md'', (''---'' @ [CHR 0x0A] @ [CHR 0x27] @ ''app'' @ [CHR 0x27] @ '': patch'' @ [CHR 0x0A] @ ''---''))], env_execOk = (\<lambda>cmd. True), env_unlinkOk = (\<lambda>f. True), env_versionOf = (\<lambda>n. Some ''1.0.1'')\<rparr>" and f = "''plan.md''" and ok = True
       and listing = "[(''plan.md'', (''---'' @ [CHR 0x0A] @ [CHR 0x27] @ ''app'' @ [CHR 0x27] @ '': patch'' @ [CHR 0x0A] @ ''---''))]" and planFile = "''plan.md''" and content = "(''---'' @ [CHR 0x0A] @ [CHR 0x27] @ ''app'' @ [CHR 0x27] @ '': patch'' @ [CHR 0x0A] @ ''---'')"]
    u nd1 ok1 dir pr un mem md
  have 1: "\<not> isDryRun \<lparr>env_args = [], env_plansDir = Some [(''plan.md'', (''---'' @ [CHR 0x0A] @ [CHR 0x27] @ ''app'' @ [CHR 0x27] @ '': patch'' @ [CHR 0x0A] @ ''---''))], env_execOk = (\<lambda>cmd. True), env_unlinkOk = (\<lambda>f. True), env_versionOf = (\<lambda>n. Some ''1.0.1'')\<rparr> \<and>
      (\<exists>pre post. releaseScript \<lparr>env_args = [], env_plansDir = Some [(''plan.md'', (''---'' @ [CHR 0x0A] @ [CHR 0x27] @ ''app'' @ [CHR 0x27] @ '': patch'' @ [CHR 0x0A] @ ''---''))], env_execOk = (\<lambda>cmd. True), env_unlinkOk = (\<lambda>f. True), env_versionOf = (\<lambda>n. Some ''1.0.1'')\<rparr> = pre @ post
         \<and> Exec (versionCmd \<lparr>env_args = [], env_plansDir = Some [(''plan.md'', (''---'' @ [CHR 0x0A] @ [CHR 0x27] @ ''app'' @ [CHR 0x27] @ '': patch'' @ [CHR 0x0A] @ ''---''))], env_execOk = (\<lambda>cmd. True), env_unlinkOk = (\<lambda>f. True), env_versionOf = (\<lambda>n. Some ''1.0.1'')\<rparr>) True \<in> set pre
         \<and> (\<forall>g k. Unlink g k \<notin> set pre)
         \<and> list_all after_delete post)"
    and 3: "Unlink ''plan.md'' True \<in> set (releaseScript \<lparr>env_args = [], env_plansDir = Some [(''plan.md'', (''---'' @ [CHR 0x0A] @ [CHR 0x27] @ ''app'' @ [CHR 0x27] @ '': patch'' @ [CHR 0x0A] @ ''---''))], env_execOk = (\<lambda>cmd. True), env_unlinkOk = (\<lambda>f. True), env_versionOf = (\<lambda>n. Some ''1.0.1'')\<rparr>)"
    by blast+
  from plans_deleted_after_version_step
    [where env = "\<lparr>env_args = [], env_plansDir = Some [(''plan.md'', (''---'' @ [CHR 0x0A] @ [CHR 0x27] @ ''app'' @ [CHR 0x27] @ '': patch'' @ [CHR 0x0A] @ ''---''))], env_execOk = (\<lambda>cmd. False), env_unlinkOk = (\<lambda>f. True), env_versionOf = (\<lambda>n. Some ''1.0.1'')\<rparr>" and f = "''plan.md''" and ok = True] nd2 no2
  have 2: "Unlink ''plan.md'' True \<notin> set (releaseScript \<lparr>env_args = [], env_plansDir = Some [(''plan.md'', (''---'' @ [CHR 0x0A] @ [CHR 0x27] @ ''app'' @ [CHR 0x27] @ '': patch'' @ [CHR 0x0A] @ ''---''))], env_execOk = (\<lambda>cmd. False), env_unlinkOk = (\<lambda>f. True), env_versionOf = (\<lambda>n. Some ''1.0.1'')\<rparr>) \<and> last (releaseScript \<lparr>env_args = [], env_plansDir = Some [(''plan.md'', (''---'' @ [CHR 0x0A] @ [CHR 0x27] @ ''app'' @ [CHR 0x27] @ '': patch'' @ [CHR 0x0A] @ ''---''))], env_execOk = (\<lambda>cmd. False), env_unlinkOk = (\<lambda>f. True), env_versionOf = (\<lambda>n. Some ''1.0.1'')\<rparr>) = Exit 1"
    by blast
  from 1 2 3 show ?thesis by blast
qed

text \<open>
  C6 as the specification words it fails for a step between the version command and
  the removal: here the changelog command throws, which the script catches as a
  warning, and the plan file is removed all the same.
\<close>

theorem plans_deleted_after_failed_changelog:
  "releaseScript \<lparr>env_args = [], env_plansDir = Some [(''plan.md'', (''---'' @ [CHR 0x0A] @ [CHR 0x27] @ ''app'' @ [CHR 0x27] @ '': patch'' @ [CHR 0x0A] @ ''---''))], env_execOk = (\<lambda>cmd. cmd = ''npx nx release version --git-commit=false --stage-changes=false'' \<or> cmd = ''npm install --package-lock-only''), env_unlinkOk = (\<lambda>f. True), env_versionOf = (\<lambda>n. Some ''1.0.1'')\<rparr> =
     [Exec ''npx nx release version --git-commit=false --stage-changes=false'' True, Exec (changelogCmd ''app'' ''1.0.1'') False, Unlink ''plan.md'' True,
      Exec lockfileCmd True, Exit 0]"
  by (simp add: release_eval plan_eval rx_eval)


end
